(* ===== verification/Prelude.thy ===== *)
theory Prelude
  imports Main "HOL-Library.Word" "HOL-Library.Signed_Division"
begin

text \<open>
  Shared vocabulary of the Terrascope development: the fixed-width integer types of the C
  code, the errno values it returns, the search loop that most modules contain
  (\<open>first_index\<close>), short-circuit chains, little-endian memory (\<open>le_bytes\<close>, \<open>le_val\<close>,
  \<open>slice\<close>, \<open>splice\<close>), C strings in fixed arrays, and the generic lemmas the components
  use. The collection \<open>loop_simps\<close> holds the characterisations of the loops,
  \<open>mem_simps\<close> the laws of memory accesses, and \<open>inv_intros\<close> the preservation lemmas of
  the component invariants.
\<close>

named_theorems loop_simps
named_theorems mem_simps
named_theorems inv_intros

section \<open>Integers of the C code\<close>

text \<open>
  Signed and unsigned C integers of one width share a word type; the operations say which
  reading is meant (\<open>uint\<close>/\<open>unat\<close> or \<open>sint\<close>). \<open>size_t\<close> and loop counters that cannot
  wrap are \<open>nat\<close>; the \<open>int\<close> that a C function returns as status is \<open>int\<close>.
\<close>

type_synonym uint8_t = "8 word"
type_synonym uint16_t = "16 word"
type_synonym uint32_t = "32 word"
type_synonym int8_t = "8 word"
type_synonym int16_t = "16 word"
type_synonym int32_t = "32 word"
type_synonym bytes = "8 word list"

text \<open>The values of \<open>errno.h\<close> that the firmware uses (as in Zephyr's C library).\<close>

abbreviation (input) ENOENT :: int where "ENOENT \<equiv> 2"
abbreviation (input) EIO :: int where "EIO \<equiv> 5"
abbreviation (input) EAGAIN :: int where "EAGAIN \<equiv> 11"
abbreviation (input) ENOMEM :: int where "ENOMEM \<equiv> 12"
abbreviation (input) EACCES :: int where "EACCES \<equiv> 13"
abbreviation (input) EFAULT :: int where "EFAULT \<equiv> 14"
abbreviation (input) EBUSY :: int where "EBUSY \<equiv> 16"
abbreviation (input) ENODEV :: int where "ENODEV \<equiv> 19"
abbreviation (input) EINVAL :: int where "EINVAL \<equiv> 22"
abbreviation (input) ENOSPC :: int where "ENOSPC \<equiv> 28"
abbreviation (input) ENOMSG :: int where "ENOMSG \<equiv> 35"
abbreviation (input) EBADMSG :: int where "EBADMSG \<equiv> 77"
abbreviation (input) EHOSTUNREACH :: int where "EHOSTUNREACH \<equiv> 118"
abbreviation (input) EMSGSIZE :: int where "EMSGSIZE \<equiv> 122"

section \<open>Search loops over arrays\<close>

text \<open>
  \<^verbatim>\<open>for (i = 0; i < N; i++) if (P(a[i])) return &a[i]; return NULL;\<close>
  The pointer into the array is the index.
\<close>

fun first_index :: "('a \<Rightarrow> bool) \<Rightarrow> 'a list \<Rightarrow> nat option" where
  "first_index P [] = None"
| "first_index P (x # xs) = (if P x then Some 0 else map_option Suc (first_index P xs))"

lemma first_index_None [loop_simps]:
  "first_index P xs = None \<longleftrightarrow> (\<forall>x \<in> set xs. \<not> P x)"
  by (induction xs) auto

lemma first_index_SomeD:
  "first_index P xs = Some i \<Longrightarrow> i < length xs \<and> P (xs ! i) \<and> (\<forall>j < i. \<not> P (xs ! j))"
proof (induction xs arbitrary: i)
  case Nil
  then show ?case by simp
next
  case (Cons x xs)
  show ?case
  proof (cases "P x")
    case True
    with Cons.prems show ?thesis by simp
  next
    case False
    with Cons.prems obtain k where k: "first_index P xs = Some k" "i = Suc k" by auto
    from Cons.IH [OF k(1)] k(2) False show ?thesis
      by (auto simp: nth_Cons split: nat.splits)
  qed
qed

lemma first_index_Some_iff:
  "first_index P xs = Some i \<longleftrightarrow> i < length xs \<and> P (xs ! i) \<and> (\<forall>j < i. \<not> P (xs ! j))"
proof
  assume r: "i < length xs \<and> P (xs ! i) \<and> (\<forall>j < i. \<not> P (xs ! j))"
  then have "first_index P xs \<noteq> None" by (auto simp: loop_simps)
  then obtain k where k: "first_index P xs = Some k" by blast
  with r show "first_index P xs = Some i"
    using first_index_SomeD [OF k] by (metis linorder_neqE_nat)
qed (rule first_index_SomeD)

text \<open>When at most one element satisfies the test, the loop finds exactly that one.\<close>

lemma first_index_unique:
  assumes "i < length xs" "P (xs ! i)"
    and "\<And>j. j < length xs \<Longrightarrow> P (xs ! j) \<Longrightarrow> j = i"
  shows "first_index P xs = Some i"
  unfolding first_index_Some_iff
proof (intro conjI allI impI notI)
  fix j
  assume "j < i" "P (xs ! j)"
  with assms(1) assms(3) [of j] show False by simp
qed (fact assms(1) assms(2))+

text \<open>\<^verbatim>\<open>for (i = 0; i < N; i++) a[i] = f(a[i]);\<close>\<close>

lemma foldl_update_map [loop_simps]:
  "n \<le> length xs \<Longrightarrow>
   foldl (\<lambda>ys i. ys[i := f (ys ! i)]) xs [0..<n] = map f (take n xs) @ drop n xs"
proof (induction n)
  case (Suc n)
  then have n: "n < length xs" by simp
  then have "drop n xs = xs ! n # drop (Suc n) xs" by (simp add: Cons_nth_drop_Suc)
  with Suc n show ?case by (simp add: nth_append list_update_append take_Suc_conv_app_nth)
qed simp

text \<open>Two optional results agree when they agree on every value they may hold.\<close>

lemma option_eqI:
  assumes "\<And>t. a = Some t \<longleftrightarrow> b = Some t"
  shows "a = b"
proof (cases a)
  case None
  with assms [of "the b"] show ?thesis by (cases b) simp_all
next
  case (Some t)
  with assms [of t] show ?thesis by simp
qed

section \<open>Short-circuit chains\<close>

text \<open>
  \<^verbatim>\<open>!f1(state) || !f2(state) || ...\<close> runs the calls in order and stops at the first one
  that reports failure; \<open>None\<close> is failure, \<open>Some\<close> the state after a call.
\<close>

fun all_ok :: "('s \<Rightarrow> 's option) list \<Rightarrow> 's \<Rightarrow> 's option" where
  "all_ok [] s = Some s"
| "all_ok (f # fs) s = (case f s of None \<Rightarrow> None | Some t \<Rightarrow> all_ok fs t)"

lemma all_ok_append [simp]:
  "all_ok (fs @ gs) s = (case all_ok fs s of None \<Rightarrow> None | Some t \<Rightarrow> all_ok gs t)"
  by (induction fs arbitrary: s) (auto split: option.splits)

section \<open>Little-endian memory\<close>

fun le_bytes :: "nat \<Rightarrow> int \<Rightarrow> bytes" where
  "le_bytes 0 v = []"
| "le_bytes (Suc n) v = word_of_int v # le_bytes n (v div 256)"

fun le_val :: "bytes \<Rightarrow> int" where
  "le_val [] = 0"
| "le_val (b # bs) = uint b + 256 * le_val bs"

lemma length_le_bytes [simp]: "length (le_bytes n v) = n"
  by (induction n arbitrary: v) auto

lemma le_val_le_bytes [mem_simps]: "le_val (le_bytes n v) = v mod 256 ^ n"
proof (induction n arbitrary: v)
  case 0
  then show ?case by simp
next
  case (Suc n)
  have "v mod 256 ^ Suc n = v mod 256 + 256 * (v div 256 mod 256 ^ n)"
    using zmod_zmult2_eq [of "256 ^ n" v 256] by (simp add: algebra_simps)
  with Suc show ?case by (simp add: uint_word_of_int)
qed

text \<open>Reduction modulo a machine width is truncation.\<close>

lemma mod_take_bit:
  "(x::int) mod 256 = take_bit 8 x"
  "(x::int) mod 65536 = take_bit 16 x"
  "(x::int) mod 4294967296 = take_bit 32 x"
  by (simp_all add: take_bit_eq_mod)

lemma cast_mod:
  "sint (ucast (v::int32_t) :: int8_t) mod 256 = sint v mod 256"
  "uint (ucast (v::int32_t) :: uint8_t) mod 256 = sint v mod 256"
  "sint (ucast (v::int32_t) :: int16_t) mod 65536 = sint v mod 65536"
  "uint (ucast (v::int32_t) :: uint16_t) mod 65536 = sint v mod 65536"
  "uint (v::int32_t) mod 4294967296 = sint v mod 4294967296"
  unfolding mod_take_bit by (transfer, simp add: take_bit_signed_take_bit)+

lemma sint_nonneg_uint: "0 \<le> sint (v::int32_t) \<Longrightarrow> sint v = uint v"
  using cast_mod(5) [of v] sint_lt [of v] uint_lt2p [of v] by simp

lemma le_bytes_cong: "x mod 256 ^ n = y mod 256 ^ n \<Longrightarrow> le_bytes n x = le_bytes n y"
proof (induction n arbitrary: x y)
  case 0
  then show ?case by simp
next
  case (Suc n)
  have step: "z mod 256 ^ Suc n = z mod 256 + 256 * (z div 256 mod 256 ^ n)" for z :: int
    using zmod_zmult2_eq [of "256 ^ n" z 256] by (simp add: algebra_simps)
  have low: "x mod 256 = y mod 256"
    using arg_cong [OF Suc.prems, of "\<lambda>z. z mod 256"] by (simp add: mod_mod_cancel)
  with Suc.prems have "x div 256 mod 256 ^ n = y div 256 mod 256 ^ n"
    unfolding step by simp
  moreover have "(word_of_int x :: 8 word) = word_of_int y"
    using low unfolding mod_take_bit by transfer simp
  ultimately show ?case using Suc.IH [of "x div 256" "y div 256"] by simp
qed

lemma le_val_bound: "0 \<le> le_val bs \<and> le_val bs < 256 ^ length bs"
proof (induction bs)
  case (Cons b bs)
  have "uint b < 256" using uint_lt2p [of b] by simp
  with Cons show ?case by simp
qed simp

definition slice :: "nat \<Rightarrow> nat \<Rightarrow> bytes \<Rightarrow> bytes" where
  "slice off n mem = take n (drop off mem)"

definition splice :: "nat \<Rightarrow> bytes \<Rightarrow> bytes \<Rightarrow> bytes" where
  "splice off bs mem = take off mem @ bs @ drop (off + length bs) mem"

lemma length_splice [simp]:
  "off + length bs \<le> length mem \<Longrightarrow> length (splice off bs mem) = length mem"
  by (simp add: splice_def)

lemma slice_splice_same [mem_simps]:
  "off + length bs \<le> length mem \<Longrightarrow> n = length bs \<Longrightarrow> slice off n (splice off bs mem) = bs"
  by (simp add: slice_def splice_def)

lemma slice_splice_before:
  "j + n \<le> i \<Longrightarrow> i \<le> length mem \<Longrightarrow> slice j n (splice i bs mem) = slice j n mem"
  by (simp add: slice_def splice_def drop_take)

lemma slice_splice_after:
  "i + length bs \<le> j \<Longrightarrow> i \<le> length mem \<Longrightarrow> slice j n (splice i bs mem) = slice j n mem"
  by (simp add: slice_def splice_def)

lemma slice_splice_other [mem_simps]:
  "i + length bs \<le> length mem \<Longrightarrow> j + n \<le> i \<or> i + length bs \<le> j \<Longrightarrow>
   slice j n (splice i bs mem) = slice j n mem"
  by (auto simp: slice_splice_before slice_splice_after)

lemma length_slice [simp]: "off + n \<le> length mem \<Longrightarrow> length (slice off n mem) = n"
  by (simp add: slice_def)

section \<open>C strings in arrays\<close>

abbreviation NUL :: char where "NUL \<equiv> CHR 0x00"

text \<open>The string a \<open>char\<close> array holds: everything before the first NUL.\<close>

definition cstr :: "char list \<Rightarrow> string" where
  "cstr a = takeWhile (\<lambda>c. c \<noteq> NUL) a"

text \<open>\<open>strncpy(dst, src, n)\<close>: at most \<open>n\<close> characters of \<open>src\<close>, padded with NUL to \<open>n\<close>.\<close>

definition strncpy :: "char list \<Rightarrow> char list \<Rightarrow> nat \<Rightarrow> char list" where
  "strncpy dst src n = take n (cstr src @ replicate n NUL) @ drop n dst"

lemma cstr_no_NUL [simp]: "NUL \<notin> set (cstr a)"
  unfolding cstr_def by (induction a) auto

lemma cstr_append_NUL [simp]: "NUL \<notin> set s \<Longrightarrow> cstr (s @ NUL # r) = s"
  unfolding cstr_def by (induction s) auto

lemma cstr_id: "NUL \<notin> set s \<Longrightarrow> cstr s = s"
  unfolding cstr_def by (induction s) auto

lemma cstr_length_le [simp]: "length (cstr a) \<le> length a"
  by (simp add: cstr_def length_takeWhile_le)

section \<open>Wrap-around\<close>

lemma unat_of_nat_u32: "n < 4294967296 \<Longrightarrow> unat (of_nat n :: uint32_t) = n"
  by (simp add: unat_of_nat)

lemma u32_of_nat_eq:
  "m < 4294967296 \<Longrightarrow> n < 4294967296 \<Longrightarrow> (of_nat m :: uint32_t) = of_nat n \<longleftrightarrow> m = n"
  by (metis unat_of_nat_u32)

end
