(* ===== verification/Messages.thy ===== *)
theory Messages
  imports Prelude
begin

text \<open>
  The message structures of \<open>src/messages/messages.h\<close> and the route header of
  \<open>src/routing/routing.h\<close>. The tagged union of \<open>ts_msg_lora_outgoing\<close> is a datatype whose
  constructor is the \<open>type\<close> field together with the active member; a type code outside the
  enumeration is \<open>Unknown_Type\<close>. \<open>char key[TS_MSG_CONFIG_KEY_MAX]\<close> is a list of 32
  characters. Enumerations have the width of \<open>int\<close>.
\<close>

definition TS_MSG_CONFIG_KEY_MAX :: nat where "TS_MSG_CONFIG_KEY_MAX = 32"

type_synonym ts_msg_type_t = uint32_t
type_synonym ts_status_t = uint32_t

abbreviation (input) TS_MSG_TELEMETRY :: ts_msg_type_t where "TS_MSG_TELEMETRY \<equiv> 0"
abbreviation (input) TS_MSG_NODE_STATUS :: ts_msg_type_t where "TS_MSG_NODE_STATUS \<equiv> 1"
abbreviation (input) TS_MSG_CONFIG_SET :: ts_msg_type_t where "TS_MSG_CONFIG_SET \<equiv> 2"
abbreviation (input) TS_MSG_CONFIG_ACK :: ts_msg_type_t where "TS_MSG_CONFIG_ACK \<equiv> 3"

abbreviation (input) STATUS_OK :: ts_status_t where "STATUS_OK \<equiv> 0"
abbreviation (input) STATUS_ERROR :: ts_status_t where "STATUS_ERROR \<equiv> 1"

record ts_route_header =
  rh_src :: uint16_t
  rh_dst :: uint16_t
  rh_msg_id :: uint32_t
  rh_ttl :: uint8_t
  rh_key_id :: uint8_t

record ts_msg_telemetry =
  tel_timestamp :: uint32_t
  tel_temperature :: int32_t
  tel_humidity :: uint32_t
  tel_pressure :: uint32_t

record ts_msg_node_status =
  ns_timestamp :: uint32_t
  ns_uptime :: uint32_t
  ns_status :: ts_status_t

record ts_msg_config_set =
  cs_key :: "char list"
  cs_value :: int32_t

record ts_msg_config_ack =
  ca_key :: "char list"
  ca_value :: int32_t
  ca_result :: int32_t

datatype ts_msg_data =
    Telemetry ts_msg_telemetry
  | Node_Status ts_msg_node_status
  | Config_Set ts_msg_config_set
  | Config_Ack ts_msg_config_ack
  | Unknown_Type ts_msg_type_t

record ts_msg_lora_outgoing =
  msg_route :: ts_route_header
  msg_data :: ts_msg_data

record ts_msg_lora_incoming =
  in_msg :: ts_msg_lora_outgoing
  in_rssi :: int16_t
  in_snr :: int8_t

fun msg_type :: "ts_msg_data \<Rightarrow> ts_msg_type_t" where
  "msg_type (Telemetry _) = TS_MSG_TELEMETRY"
| "msg_type (Node_Status _) = TS_MSG_NODE_STATUS"
| "msg_type (Config_Set _) = TS_MSG_CONFIG_SET"
| "msg_type (Config_Ack _) = TS_MSG_CONFIG_ACK"
| "msg_type (Unknown_Type t) = t"

text \<open>Zero-initialised objects: \<open>= {0}\<close> in the C code.\<close>

definition zero_header :: ts_route_header where
  "zero_header = \<lparr>rh_src = 0, rh_dst = 0, rh_msg_id = 0, rh_ttl = 0, rh_key_id = 0\<rparr>"

definition zero_msg :: ts_msg_lora_outgoing where
  "zero_msg = \<lparr>msg_route = zero_header,
     msg_data = Telemetry \<lparr>tel_timestamp = 0, tel_temperature = 0, tel_humidity = 0,
                          tel_pressure = 0\<rparr>\<rparr>"

definition zero_key :: "char list" where
  "zero_key = replicate TS_MSG_CONFIG_KEY_MAX NUL"

text \<open>
  The messages the firmware builds: a key array has its full length and is terminated, and
  \<open>Unknown_Type\<close> is kept for codes outside the enumeration.
\<close>

definition wf_key :: "char list \<Rightarrow> bool" where
  "wf_key a \<longleftrightarrow> length a = TS_MSG_CONFIG_KEY_MAX \<and> NUL \<in> set a"

fun wf_data :: "ts_msg_data \<Rightarrow> bool" where
  "wf_data (Config_Set c) = wf_key (cs_key c)"
| "wf_data (Config_Ack c) = wf_key (ca_key c)"
| "wf_data (Unknown_Type t) = (t \<notin> {0, 1, 2, 3})"
| "wf_data _ = True"

fun known_type :: "ts_msg_data \<Rightarrow> bool" where
  "known_type (Unknown_Type _) = False"
| "known_type _ = True"

lemma wf_key_cstr_less: "wf_key a \<Longrightarrow> length (cstr a) < TS_MSG_CONFIG_KEY_MAX"
proof -
  assume w: "wf_key a"
  then have "takeWhile (\<lambda>c. c \<noteq> NUL) a \<noteq> a"
    by (auto simp: wf_key_def takeWhile_eq_all_conv)
  then have "length (cstr a) < length a"
    unfolding cstr_def by (metis length_takeWhile_le le_neq_implies_less takeWhile_eq_take take_all_iff)
  with w show ?thesis by (simp add: wf_key_def)
qed

lemma zero_key_simps [simp]: "length zero_key = 32" "wf_key zero_key" "cstr zero_key = []"
  by (simp_all add: zero_key_def wf_key_def TS_MSG_CONFIG_KEY_MAX_def cstr_def)

end
