(* ===== verification/Platform.thy ===== *)
theory Platform
  imports Messages "HOL-Library.Sublist"
begin

text \<open>
  The interfaces of the code that is not part of the repository: zcbor, the PSA crypto API,
  the Zephyr settings subsystem, delayable work items and message queues. Each is a record
  of functions, an argument of every definition of the model that calls it. What the
  firmware relies on is stated once per interface as a locale over documented behaviour;
  the components prove their own laws inside these locales, and
  \<open>Platform_Reference\<close> interprets each of them on a concrete implementation.
\<close>

section \<open>zcbor\<close>

text \<open>
  The calls that \<open>src/lora/cbor.c\<close> makes. A call that returns false is \<open>None\<close>: the C code
  never uses a zcbor state again after a failed call, except to log its error code.
  \<open>zcbor_payload\<close> is the part of the buffer written so far (from \<open>p_buf\<close> to
  \<open>state->payload\<close>).
\<close>

record ('e, 'd) zcbor_api =
  zcbor_new_encode :: "nat \<Rightarrow> nat \<Rightarrow> 'e"
  zcbor_payload :: "'e \<Rightarrow> bytes"
  zcbor_tstr_put_lit :: "string \<Rightarrow> 'e \<Rightarrow> 'e option"
  zcbor_tstr_put_term :: "char list \<Rightarrow> nat \<Rightarrow> 'e \<Rightarrow> 'e option"
  zcbor_uint32_put :: "uint32_t \<Rightarrow> 'e \<Rightarrow> 'e option"
  zcbor_int32_put :: "int32_t \<Rightarrow> 'e \<Rightarrow> 'e option"
  zcbor_map_start_encode :: "nat \<Rightarrow> 'e \<Rightarrow> 'e option"
  zcbor_map_end_encode :: "nat \<Rightarrow> 'e \<Rightarrow> 'e option"
  zcbor_new_decode :: "nat \<Rightarrow> bytes \<Rightarrow> nat \<Rightarrow> 'd"
  zcbor_tstr_expect_lit :: "string \<Rightarrow> 'd \<Rightarrow> 'd option"
  zcbor_tstr_decode :: "'d \<Rightarrow> (string \<times> 'd) option"
  zcbor_uint32_decode :: "'d \<Rightarrow> (uint32_t \<times> 'd) option"
  zcbor_int32_decode :: "'d \<Rightarrow> (int32_t \<times> 'd) option"
  zcbor_map_start_decode :: "'d \<Rightarrow> 'd option"
  zcbor_map_end_decode :: "'d \<Rightarrow> 'd option"

text \<open>The items these calls write and read.\<close>

datatype cbor_item =
    TStr string
  | UInt uint32_t
  | SInt int32_t
  | MapStart nat
  | MapEnd nat

text \<open>
  An encoder call appends the bytes of its item when they fit into what is left of the
  buffer, and fails otherwise.
\<close>

definition puts_item ::
  "('e, 'd) zcbor_api \<Rightarrow> ('e \<Rightarrow> nat) \<Rightarrow> ('e \<Rightarrow> 'e option) \<Rightarrow> bytes \<Rightarrow> bool" where
  "puts_item Z room f w \<longleftrightarrow>
     (\<forall>e. if length w \<le> room e
          then (\<exists>e'. f e = Some e' \<and> zcbor_payload Z e' = zcbor_payload Z e @ w
                     \<and> room e' = room e - length w)
          else f e = None)"

text \<open>
  A decoder call that finds the bytes of its item at the read position consumes exactly
  them, and fails when the input ends inside them. \<open>db\<close> and \<open>da\<close> are the container
  backups the call needs before and leaves after.
\<close>

definition reads_item ::
  "('d \<Rightarrow> bytes) \<Rightarrow> ('d \<Rightarrow> nat) \<Rightarrow> ('d \<Rightarrow> ('a \<times> 'd) option) \<Rightarrow> bytes \<Rightarrow> 'a \<Rightarrow>
   (nat \<Rightarrow> bool) \<Rightarrow> (nat \<Rightarrow> nat) \<Rightarrow> bool" where
  "reads_item rest depth f w v db da \<longleftrightarrow>
     (\<forall>d r. db (depth d) \<and> rest d = w @ r \<longrightarrow>
        (\<exists>d'. f d = Some (v, d') \<and> rest d' = r \<and> depth d' = da (depth d))) \<and>
     (\<forall>d. db (depth d) \<and> strict_prefix (rest d) w \<longrightarrow> f d = None)"

definition no_value :: "('d \<Rightarrow> 'd option) \<Rightarrow> 'd \<Rightarrow> (unit \<times> 'd) option" where
  "no_value f d = map_option (\<lambda>d'. ((), d')) (f d)"

locale zcbor =
  fixes Z :: "('e, 'd) zcbor_api"
    and wire :: "cbor_item \<Rightarrow> bytes"
    and room :: "'e \<Rightarrow> nat"
    and rest :: "'d \<Rightarrow> bytes"
    and depth :: "'d \<Rightarrow> nat"
  assumes new_encode:
      "zcbor_payload Z (zcbor_new_encode Z b n) = [] \<and> room (zcbor_new_encode Z b n) = n"
    and wire_nonempty: "wire it \<noteq> []"
    and put_lit: "length s < 2 ^ 32 \<Longrightarrow> puts_item Z room (zcbor_tstr_put_lit Z s) (wire (TStr s))"
    and put_term: "n < 2 ^ 32 \<Longrightarrow>
      puts_item Z room (zcbor_tstr_put_term Z a n) (wire (TStr (cstr (take n a))))"
    and put_uint32: "puts_item Z room (zcbor_uint32_put Z v) (wire (UInt v))"
    and put_int32: "puts_item Z room (zcbor_int32_put Z i) (wire (SInt i))"
    and put_map_start: "puts_item Z room (zcbor_map_start_encode Z n) (wire (MapStart n))"
    and put_map_end: "puts_item Z room (zcbor_map_end_encode Z n) (wire (MapEnd n))"
    and new_decode:
      "0 < n \<Longrightarrow> rest (zcbor_new_decode Z b bs n) = bs \<and> depth (zcbor_new_decode Z b bs n) = b"
    and get_lit:
      "length s < 2 ^ 32 \<Longrightarrow>
       reads_item rest depth (no_value (zcbor_tstr_expect_lit Z s)) (wire (TStr s)) ()
         (\<lambda>_. True) (\<lambda>k. k)"
    and get_tstr:
      "length s < 2 ^ 32 \<Longrightarrow>
       reads_item rest depth (zcbor_tstr_decode Z) (wire (TStr s)) s (\<lambda>_. True) (\<lambda>k. k)"
    and get_uint32:
      "reads_item rest depth (zcbor_uint32_decode Z) (wire (UInt v)) v (\<lambda>_. True) (\<lambda>k. k)"
    and get_int32:
      "reads_item rest depth (zcbor_int32_decode Z) (wire (SInt i)) i (\<lambda>_. True) (\<lambda>k. k)"
    and get_map_start:
      "reads_item rest depth (no_value (zcbor_map_start_decode Z)) (wire (MapStart n)) ()
         (\<lambda>k. 0 < k) (\<lambda>k. k - 1)"
    and get_map_end:
      "reads_item rest depth (no_value (zcbor_map_end_decode Z)) (wire (MapEnd n)) ()
         (\<lambda>_. True) (\<lambda>k. k + 1)"

text \<open>
  The sizes of the encodings (RFC 8949): a 32-bit integer takes at most five bytes, a text
  string of fewer than 256 bytes at most two bytes of header, a map of fewer than 24
  entries one byte at either end.
\<close>

locale zcbor_sized = zcbor +
  assumes size_uint: "length (wire (UInt v)) \<le> 5"
    and size_sint: "length (wire (SInt i)) \<le> 5"
    and size_tstr: "length s < 256 \<Longrightarrow> length (wire (TStr s)) \<le> length s + (if length s < 24 then 1 else 2)"
    and size_map_start: "n < 24 \<Longrightarrow> length (wire (MapStart n)) \<le> 1"
    and size_map_end: "length (wire (MapEnd n)) \<le> 1"

section \<open>PSA crypto\<close>

datatype psa_key_type = PSA_KEY_TYPE_AES
datatype psa_key_usage = PSA_KEY_USAGE_SIGN_MESSAGE
datatype psa_algorithm = PSA_ALG_CMAC

record psa_key_attributes =
  psa_type :: psa_key_type
  psa_bits :: nat
  psa_usage :: psa_key_usage
  psa_alg :: psa_algorithm

abbreviation (input) PSA_SUCCESS :: int where "PSA_SUCCESS \<equiv> 0"

text \<open>
  \<open>'k\<close> is the state of the PSA key store. \<open>psa_mac_compute\<close> gives the status and what it
  left in the output buffer.
\<close>

record 'k psa_api =
  psa_crypto_init :: "'k \<Rightarrow> int \<times> 'k"
  psa_import_key :: "psa_key_attributes \<Rightarrow> bytes \<Rightarrow> 'k \<Rightarrow> int \<times> uint32_t \<times> 'k"
  psa_mac_compute :: "'k \<Rightarrow> uint32_t \<Rightarrow> psa_algorithm \<Rightarrow> bytes \<Rightarrow> int \<times> bytes"

text \<open>
  The contract: a successful MAC is 16 bytes long, and a successful one under a key id
  returned by a successful import is the CMAC under that key. \<open>cmac\<close> is the primitive itself; nothing
  is assumed of it but its length.
\<close>

locale psa =
  fixes P :: "'k psa_api" and cmac :: "bytes \<Rightarrow> bytes \<Rightarrow> bytes"
  assumes cmac_length: "length (cmac kb d) = 16"
    and mac_length: "psa_mac_compute P ks i PSA_ALG_CMAC d = (PSA_SUCCESS, m) \<Longrightarrow> length m = 16"
    and mac_imported:
      "psa_import_key P attr kb ks = (PSA_SUCCESS, i, ks') \<Longrightarrow> psa_alg attr = PSA_ALG_CMAC \<Longrightarrow>
       psa_type attr = PSA_KEY_TYPE_AES \<Longrightarrow> psa_bits attr = 8 * length kb \<Longrightarrow>
       psa_mac_compute P ks' i PSA_ALG_CMAC d = (PSA_SUCCESS, m) \<Longrightarrow> m = cmac kb d"

section \<open>Settings\<close>

text \<open>
  One value that \<open>settings_load\<close> hands to a handler: the key below the handler's subtree,
  the stored length, and the read callback (requested length to return code and the bytes
  it wrote). \<open>'n\<close> is the state of the non-volatile store.
\<close>

record settings_item =
  si_key :: string
  si_len :: nat
  si_read :: "nat \<Rightarrow> int \<times> bytes"

record 'n settings_api =
  settings_subsys_init :: "'n \<Rightarrow> int \<times> 'n"
  settings_load :: "'n \<Rightarrow> int \<times> settings_item list"
  settings_save_one :: "string \<Rightarrow> bytes \<Rightarrow> 'n \<Rightarrow> int \<times> 'n"
  settings_delete :: "string \<Rightarrow> 'n \<Rightarrow> int \<times> 'n"

text \<open>
  The contract: a successful save stores the value under its full name, a successful
  delete removes it, initialisation changes nothing, and \<open>settings_load\<close> hands over every
  stored value of the subtree \<open>ts\<close> once, with its name after the prefix.
\<close>

locale settings =
  fixes S :: "'n settings_api" and persisted :: "'n \<Rightarrow> string \<Rightarrow> bytes option"
  assumes subsys_init: "settings_subsys_init S n = (r, n') \<Longrightarrow> persisted n' = persisted n"
    and save_one: "settings_save_one S k v n = (0, n') \<Longrightarrow> persisted n' = (persisted n)(k \<mapsto> v)"
    and delete: "settings_delete S k n = (0, n') \<Longrightarrow> persisted n' = (persisted n)(k := None)"
    and load_sound:
      "settings_load S n = (r, its) \<Longrightarrow> it \<in> set its \<Longrightarrow>
       \<exists>v. persisted n (''ts/'' @ si_key it) = Some v \<and> si_len it = length v
           \<and> si_read it (length v) = (int (length v), v)"
    and load_complete:
      "settings_load S n = (0, its) \<Longrightarrow> persisted n (''ts/'' @ k) = Some v \<Longrightarrow>
       k \<in> si_key ` set its"
    and load_distinct: "settings_load S n = (r, its) \<Longrightarrow> distinct (map si_key its)"

text \<open>A backend that keeps the old value when it cannot save the new one, as the one on flash does.\<close>

locale settings_atomic = settings +
  assumes save_atomic: "settings_save_one S k v n = (r, n') \<Longrightarrow>
    persisted n' = persisted n \<or> persisted n' = (persisted n)(k \<mapsto> v)"

section \<open>Delayable work\<close>

record 'w k_work_api =
  k_work_init_delayable :: 'w
  k_work_schedule :: "uint32_t \<Rightarrow> 'w \<Rightarrow> 'w"
  k_work_cancel_delayable :: "'w \<Rightarrow> 'w"
  k_work_cancel_delayable_sync :: "'w \<Rightarrow> 'w"

text \<open>
  The contract, over the delay in milliseconds a work item waits for (\<open>None\<close>: idle):
  scheduling an idle item starts its delay and leaves a waiting one alone, cancelling makes
  it idle.
\<close>

locale k_work =
  fixes K :: "'w k_work_api" and waiting :: "'w \<Rightarrow> uint32_t option"
  assumes init_idle: "waiting (k_work_init_delayable K) = None"
    and schedule_idle: "waiting w = None \<Longrightarrow> waiting (k_work_schedule K ms w) = Some ms"
    and schedule_busy: "waiting w \<noteq> None \<Longrightarrow> waiting (k_work_schedule K ms w) = waiting w"
    and cancel_idle: "waiting (k_work_cancel_delayable K w) = None"
    and cancel_sync_idle: "waiting (k_work_cancel_delayable_sync K w) = None"

section \<open>Mutexes\<close>

text \<open>
  \<open>k_mutex_lock\<close> with \<open>K_FOREVER\<close>: the result says whether the thread has got the mutex at
  once or is blocked. \<open>k_mutex_unlock\<close> gives the thread that is woken, if any. \<open>'t\<close> are the
  threads, \<open>'m\<close> is the state of the mutex.
\<close>

record ('t, 'm) k_mutex_api =
  k_mutex_free :: 'm
  k_mutex_lock :: "'t \<Rightarrow> 'm \<Rightarrow> bool \<times> 'm"
  k_mutex_unlock :: "'t \<Rightarrow> 'm \<Rightarrow> 't option \<times> 'm"

text \<open>
  The contract: a free mutex is taken, a thread that finds it taken by another one waits,
  and an unlock passes the mutex directly to one of the waiting threads, if there is one.
\<close>

locale k_mutex =
  fixes M :: "('t, 'm) k_mutex_api" and owner :: "'m \<Rightarrow> 't option" and waiters :: "'m \<Rightarrow> 't set"
  assumes free: "owner (k_mutex_free M) = None \<and> waiters (k_mutex_free M) = {}"
    and lock_free: "owner m = None \<Longrightarrow> waiters m = {} \<Longrightarrow>
      \<exists>m'. k_mutex_lock M t m = (True, m') \<and> owner m' = Some t \<and> waiters m' = {}"
    and lock_taken: "owner m = Some u \<Longrightarrow> u \<noteq> t \<Longrightarrow>
      \<exists>m'. k_mutex_lock M t m = (False, m') \<and> owner m' = Some u \<and> waiters m' = insert t (waiters m)"
    and unlock_free: "owner m = Some t \<Longrightarrow> waiters m = {} \<Longrightarrow>
      \<exists>m'. k_mutex_unlock M t m = (None, m') \<and> owner m' = None \<and> waiters m' = {}"
    and unlock_pass: "owner m = Some t \<Longrightarrow> waiters m \<noteq> {} \<Longrightarrow>
      \<exists>u m'. k_mutex_unlock M t m = (Some u, m') \<and> u \<in> waiters m \<and> owner m' = Some u \<and>
        waiters m' = waiters m - {u}"

section \<open>Message queues\<close>

record ('q, 'p) k_msgq_api =
  k_msgq_init :: "nat \<Rightarrow> 'q"
  k_msgq_put :: "'p \<Rightarrow> 'q \<Rightarrow> int \<times> 'q"
  k_msgq_get :: "'q \<Rightarrow> int \<times> 'p option \<times> 'q"

text \<open>
  The contract of \<open>k_msgq\<close>, with the calls the driver makes (\<open>K_NO_WAIT\<close> on put): a
  first-in first-out queue of bounded depth. \<open>k_msgq_get\<close> on an empty queue gives
  \<open>-EAGAIN\<close> (the timeout ran out) or \<open>-ENOMSG\<close>.
\<close>

locale k_msgq =
  fixes Q :: "('q, 'p) k_msgq_api" and queued :: "'q \<Rightarrow> 'p list" and depth :: "'q \<Rightarrow> nat"
  assumes init_empty: "queued (k_msgq_init Q n) = [] \<and> depth (k_msgq_init Q n) = n"
    and put_room:
      "length (queued q) < depth q \<Longrightarrow>
       \<exists>q'. k_msgq_put Q p q = (0, q') \<and> queued q' = queued q @ [p] \<and> depth q' = depth q"
    and put_full:
      "depth q \<le> length (queued q) \<Longrightarrow>
       \<exists>r q'. k_msgq_put Q p q = (r, q') \<and> r \<noteq> 0 \<and> queued q' = queued q \<and> depth q' = depth q"
    and get_some:
      "queued q = p # ps \<Longrightarrow>
       \<exists>q'. k_msgq_get Q q = (0, Some p, q') \<and> queued q' = ps \<and> depth q' = depth q"
    and get_empty:
      "queued q = [] \<Longrightarrow>
       \<exists>r q'. k_msgq_get Q q = (r, None, q') \<and> (r = -EAGAIN \<or> r = -ENOMSG)
              \<and> queued q' = [] \<and> depth q' = depth q"

section \<open>The message bus\<close>

datatype zbus_channel = ts_lora_out_chan | other_chan

text \<open>
  The zbus calls of the firmware: publishing on the outgoing and the incoming channel,
  waiting for a notification of the subscriber \<open>ts_lora_out_sub\<close>, and reading the outgoing
  channel. \<open>'z\<close> is the state of the bus.
\<close>

record 'z zbus_api =
  zbus_chan_pub_out :: "ts_msg_lora_outgoing \<Rightarrow> 'z \<Rightarrow> int \<times> 'z"
  zbus_chan_pub_in :: "ts_msg_lora_incoming \<Rightarrow> 'z \<Rightarrow> int \<times> 'z"
  zbus_sub_wait :: "'z \<Rightarrow> int \<times> zbus_channel \<times> 'z"
  zbus_chan_read_out :: "'z \<Rightarrow> int \<times> ts_msg_lora_outgoing \<times> 'z"

text \<open>
  The contract: a channel holds one message, the one published last; a subscriber receives
  one notification per successful publication, which names the channel and carries no
  message.
\<close>

locale zbus =
  fixes B :: "'z zbus_api"
    and current :: "'z \<Rightarrow> ts_msg_lora_outgoing"
    and notified :: "'z \<Rightarrow> nat"
    and delivered :: "'z \<Rightarrow> ts_msg_lora_incoming list"
  assumes pub_out:
      "zbus_chan_pub_out B m z = (0, z') \<Longrightarrow>
       current z' = m \<and> notified z' = notified z + 1 \<and> delivered z' = delivered z"
    and pub_out_delivered: "delivered (snd (zbus_chan_pub_out B m z)) = delivered z"
    and pub_in:
      "zbus_chan_pub_in B im z = (r, z') \<Longrightarrow>
       current z' = current z \<and> notified z' = notified z \<and>
       (if r = 0 then delivered z' = delivered z @ [im]
        else delivered z' = delivered z \<or> delivered z' = delivered z @ [im])"
    and sub_wait:
      "zbus_sub_wait B z = (0, c, z') \<Longrightarrow>
       0 < notified z \<and> c = ts_lora_out_chan \<and> notified z' = notified z - 1 \<and> current z' = current z \<and>
       delivered z' = delivered z"
    and read_out:
      "zbus_chan_read_out B z = (0, m, z') \<Longrightarrow>
       m = current z \<and> current z' = current z \<and> notified z' = notified z \<and> delivered z' = delivered z"

text \<open>
  A subscriber has a queue of bounded size. A publication that fails has either not touched
  the channel or has stored the message without queueing a notification for every
  subscriber; reading never changes anything.
\<close>

locale zbus_queue = zbus +
  fixes cap :: nat
  assumes pub_out_bounded:
      "notified z \<le> cap \<Longrightarrow> zbus_chan_pub_out B m z = (r, z') \<Longrightarrow>
       notified z' \<le> cap \<and> (current z' = m \<or> current z' = current z \<and> notified z' = notified z)"
    and read_out_keeps:
      "zbus_chan_read_out B z = (r, m, z') \<Longrightarrow> current z' = current z \<and> notified z' = notified z"

section \<open>LoRa drivers\<close>

record lora_modem_config =
  mc_frequency :: uint32_t
  mc_bandwidth :: uint32_t
  mc_datarate :: uint32_t
  mc_coding_rate :: uint32_t
  mc_iq_inverted :: bool
  mc_public_network :: bool
  mc_tx_power :: int8_t
  mc_tx :: bool

text \<open>
  \<open>lora_recv\<close> gives its return value, the bytes it wrote to the buffer, and the signal
  readings. \<open>'l\<close> is the state of the device.
\<close>

record 'l lora_driver_api =
  lora_ready :: "'l \<Rightarrow> bool"
  lora_config :: "lora_modem_config \<Rightarrow> 'l \<Rightarrow> int \<times> 'l"
  lora_send :: "bytes \<Rightarrow> nat \<Rightarrow> 'l \<Rightarrow> int \<times> 'l"
  lora_recv :: "uint8_t \<Rightarrow> 'l \<Rightarrow> (int \<times> bytes \<times> int16_t \<times> int8_t) \<times> 'l"

text \<open>The contract the receive task relies on: a received packet fits the buffer. \<open>ok\<close> is the
  driver's own invariant.\<close>

locale lora_driver =
  fixes L :: "'l lora_driver_api" and ok :: "'l \<Rightarrow> bool"
  assumes recv_fits:
      "ok l \<Longrightarrow> lora_recv L sz l = ((len, data, rssi, snr), l') \<Longrightarrow> 0 \<le> len \<Longrightarrow>
       len \<le> int (unat sz) \<and> length data = nat len"
    and recv_ok: "ok l \<Longrightarrow> ok (snd (lora_recv L sz l))"
    and send_ok: "ok l \<Longrightarrow> n \<le> length data \<Longrightarrow> ok (snd (lora_send L data n l))"
    and config_ok: "ok l \<Longrightarrow> ok (snd (lora_config L c l))"

section \<open>Sensors\<close>

text \<open>\<open>struct sensor_value\<close>: an integer part and millionths, of the same sign.\<close>

record sensor_value =
  val1 :: int32_t
  val2 :: int32_t

datatype sensor_channel = SENSOR_CHAN_AMBIENT_TEMP | SENSOR_CHAN_HUMIDITY | SENSOR_CHAN_PRESS

record 's sensor_api =
  sensor_ready :: "'s \<Rightarrow> bool"
  sensor_sample_fetch :: "'s \<Rightarrow> int \<times> 's"
  sensor_channel_get :: "sensor_channel \<Rightarrow> 's \<Rightarrow> int \<times> sensor_value"

end
