(* ===== verification/Platform_Reference.thy ===== *)
theory Platform_Reference
  imports Platform "HOL-Library.AList"
begin

text \<open>
  Concrete implementations of the platform interfaces, each shown to meet its contract:
  a settings store, a key store with a keyed checksum, work items, message queues and a
  message bus. They show that the contracts can be met, and
  the components use them to run their definitions on concrete inputs.
\<close>

section \<open>Settings over an association list\<close>

type_synonym ref_nvs = "(string \<times> bytes) list"

definition ref_item :: "string \<times> bytes \<Rightarrow> settings_item" where
  "ref_item e = \<lparr>si_key = drop 3 (fst e), si_len = length (snd e),
     si_read = (\<lambda>m. (int (length (take m (snd e))), take m (snd e)))\<rparr>"

definition ref_settings :: "ref_nvs settings_api" where
  "ref_settings =
    \<lparr>settings_subsys_init = (\<lambda>n. (0, n)),
     settings_load = (\<lambda>n. (0, map ref_item
        (filter (\<lambda>e. take 3 (fst e) = ''ts/'') (AList.clearjunk n)))),
     settings_save_one = (\<lambda>k v n. (0, AList.update k v n)),
     settings_delete = (\<lambda>k n. (0, AList.delete k n))\<rparr>"

lemma ref_prefix: "take 3 (x :: string) = ''ts/'' \<Longrightarrow> ''ts/'' @ drop 3 x = x"
  by (metis append_take_drop_id)

lemma ref_prefix_inj:
  "take 3 (x :: string) = ''ts/'' \<Longrightarrow> take 3 y = ''ts/'' \<Longrightarrow> drop 3 x = drop 3 y \<Longrightarrow> x = y"
  by (metis append_take_drop_id)

lemma ref_load_distinct:
  "distinct (map fst es) \<Longrightarrow>
   distinct (map si_key (map ref_item (filter (\<lambda>e. take 3 (fst e) = ''ts/'') es)))"
proof (induction es)
  case (Cons e es)
  then show ?case by (auto simp: ref_item_def dest: ref_prefix_inj)
qed simp

interpretation ref_settings: settings_atomic ref_settings map_of
proof
  fix n r its it
  assume load: "settings_load ref_settings n = (r, its)"
  show "distinct (map si_key its)"
    using load ref_load_distinct [OF distinct_clearjunk, of n] by (auto simp: ref_settings_def)
  assume "it \<in> set its"
  with load obtain k v where kv: "(k, v) \<in> set (AList.clearjunk n)" "take 3 k = ''ts/''"
    "it = ref_item (k, v)"
    by (auto simp: ref_settings_def)
  from kv(1) have "map_of n k = Some v"
    by (metis distinct_clearjunk map_of_clearjunk map_of_is_SomeI)
  with kv ref_prefix [OF kv(2)]
  show "\<exists>v. map_of n (''ts/'' @ si_key it) = Some v \<and> si_len it = length v
          \<and> si_read it (length v) = (int (length v), v)"
    by (auto simp: ref_item_def)
next
  fix n its k v
  assume load: "settings_load ref_settings n = (0, its)" and "map_of n (''ts/'' @ k) = Some v"
  then have "(''ts/'' @ k, v) \<in> set (AList.clearjunk n)"
    by (metis map_of_SomeD map_of_clearjunk)
  with load show "k \<in> si_key ` set its"
    by (force simp: ref_settings_def ref_item_def image_iff)
qed (auto simp: ref_settings_def update_conv' delete_conv')

section \<open>PSA crypto\<close>

text \<open>
  A key store as an association list, newest key first, and a keyed 16-byte checksum in
  place of AES-CMAC (the contract assumes nothing of the primitive but its length).
\<close>

type_synonym ref_keys = "(uint32_t \<times> bytes) list"

definition ref_cmac :: "bytes \<Rightarrow> bytes \<Rightarrow> bytes" where
  "ref_cmac kb d = map (\<lambda>i. foldl (\<lambda>a b. a * 31 + b + of_nat i) 7 (kb @ d)) [0..<16]"

definition ref_psa :: "ref_keys psa_api" where
  "ref_psa =
    \<lparr> psa_crypto_init = (\<lambda>ks. (0, ks)),
      psa_import_key = (\<lambda>attr kb ks.
        if psa_bits attr \<noteq> 8 * length kb then (-135, 0, ks)
        else let i = of_nat (length ks) + 1 in (0, i, (i, kb) # ks)),
      psa_mac_compute = (\<lambda>ks i alg d.
        case map_of ks i of None \<Rightarrow> (-136, []) | Some kb \<Rightarrow> (0, ref_cmac kb d)) \<rparr>"

interpretation ref_psa: psa ref_psa ref_cmac
  by unfold_locales
    (auto simp: ref_psa_def ref_cmac_def Let_def split: option.splits if_splits)

section \<open>Mutexes\<close>

text \<open>The owner and the waiting threads, first come first served.\<close>

definition ref_k_mutex :: "('t, 't option \<times> 't list) k_mutex_api" where
  "ref_k_mutex =
    \<lparr> k_mutex_free = (None, []),
      k_mutex_lock = (\<lambda>t (u, ws). if u = None then (True, Some t, ws) else (False, u, ws @ [t])),
      k_mutex_unlock = (\<lambda>t (u, ws). case ws of [] \<Rightarrow> (None, None, []) | w # ws \<Rightarrow> (Some w, Some w, removeAll w ws)) \<rparr>"

interpretation ref_k_mutex: k_mutex ref_k_mutex fst "\<lambda>m. set (snd m)"
  by unfold_locales (auto simp: ref_k_mutex_def split: list.splits)

section \<open>Delayable work\<close>

definition ref_k_work :: "uint32_t option k_work_api" where
  "ref_k_work =
    \<lparr> k_work_init_delayable = None,
      k_work_schedule = (\<lambda>ms w. if w = None then Some ms else w),
      k_work_cancel_delayable = (\<lambda>w. None),
      k_work_cancel_delayable_sync = (\<lambda>w. None) \<rparr>"

interpretation ref_k_work: k_work ref_k_work "\<lambda>w. w"
  by unfold_locales (auto simp: ref_k_work_def)

section \<open>Message queues\<close>

definition ref_k_msgq :: "(nat \<times> 'p list, 'p) k_msgq_api" where
  "ref_k_msgq =
    \<lparr> k_msgq_init = (\<lambda>n. (n, [])),
      k_msgq_put = (\<lambda>p (n, q). if length q < n then (0, n, q @ [p]) else (-ENOMSG, n, q)),
      k_msgq_get = (\<lambda>(n, q). case q of [] \<Rightarrow> (-EAGAIN, None, n, q) | p # ps \<Rightarrow> (0, Some p, n, ps)) \<rparr>"

interpretation ref_k_msgq: k_msgq ref_k_msgq snd fst
  by unfold_locales (auto simp: ref_k_msgq_def)

section \<open>The message bus\<close>

text \<open>The outgoing channel's message, the notifications queued for its subscriber (two at most),
  and the messages published on the incoming channel.\<close>

type_synonym ref_bus = "ts_msg_lora_outgoing \<times> nat \<times> ts_msg_lora_incoming list"

definition ref_zbus :: "ref_bus zbus_api" where
  "ref_zbus =
    \<lparr> zbus_chan_pub_out = (\<lambda>m (c, n, d). if n < 2 then (0, m, n + 1, d) else (-ENOMSG, m, n, d)),
      zbus_chan_pub_in = (\<lambda>im (c, n, d). (0, c, n, d @ [im])),
      zbus_sub_wait = (\<lambda>(c, n, d). if 0 < n then (0, ts_lora_out_chan, c, n - 1, d)
        else (-EAGAIN, other_chan, c, n, d)),
      zbus_chan_read_out = (\<lambda>(c, n, d). (0, c, c, n, d)) \<rparr>"

interpretation ref_zbus: zbus_queue ref_zbus fst "\<lambda>z. fst (snd z)" "\<lambda>z. snd (snd z)" 2
  by unfold_locales (auto simp: ref_zbus_def split: if_splits)

end
