(* ===== verification/Auth.thy ===== *)
theory Auth
  imports Platform_Reference
begin

unbundle bit_operations_syntax

text \<open>
  Network key provisioning and packet authentication: \<open>src/lora/auth.h\<close> and
  \<open>src/lora/auth.c\<close>, over the PSA crypto API as a parameter. What the radio tasks rely on
  is the locale \<open>authenticator\<close>; every PSA implementation that keeps its contract gives one
  (\<open>sublocale\<close>).
\<close>

definition TS_AUTH_KEY_SIZE :: nat where "TS_AUTH_KEY_SIZE = 16"
definition TS_AUTH_TAG_SIZE :: nat where "TS_AUTH_TAG_SIZE = 8"

section \<open>State and operations\<close>

record 'k auth_state =
  network_key :: bytes
  auth_key_id :: uint32_t
  psa_store :: 'k

definition hex_char_to_nibble :: "char \<Rightarrow> int" where
  "hex_char_to_nibble ch =
    (let c = of_char ch :: int in
     if c \<ge> of_char (CHR ''0'') \<and> c \<le> of_char (CHR ''9'') then c - of_char (CHR ''0'')
     else if c \<ge> of_char (CHR ''a'') \<and> c \<le> of_char (CHR ''f'') then c - of_char (CHR ''a'') + 10
     else if c \<ge> of_char (CHR ''A'') \<and> c \<le> of_char (CHR ''F'') then c - of_char (CHR ''A'') + 10
     else -1)"

text \<open>The parsing loop; a bad character ends it with the bytes before it already written.\<close>

fun parse_network_key :: "string \<Rightarrow> nat list \<Rightarrow> bytes \<Rightarrow> bool \<times> bytes" where
  "parse_network_key hex [] key = (True, key)"
| "parse_network_key hex (i # is) key =
    (let hi = hex_char_to_nibble (hex ! (i * 2));
         lo = hex_char_to_nibble (hex ! (i * 2 + 1))
     in if hi < 0 \<or> lo < 0 then (False, key)
        else parse_network_key hex is (key[i := word_of_int (push_bit 4 hi OR lo)]))"

text \<open>\<open>hex\<close> is the build's \<open>CONFIG_TS_NETWORK_KEY\<close>.\<close>

definition ts_auth_init :: "'k psa_api \<Rightarrow> string \<Rightarrow> 'k auth_state \<Rightarrow> int \<times> 'k auth_state" where
  "ts_auth_init P hex st =
    (if length hex \<noteq> TS_AUTH_KEY_SIZE * 2 then (-EINVAL, st)
     else case parse_network_key hex [0..<TS_AUTH_KEY_SIZE] (network_key st) of (ok, key) \<Rightarrow>
       let st = st\<lparr>network_key := key\<rparr> in
       if \<not> ok then (-EINVAL, st)
       else case psa_crypto_init P (psa_store st) of (status, ks) \<Rightarrow>
         let st = st\<lparr>psa_store := ks\<rparr> in
         if status \<noteq> PSA_SUCCESS then (-EIO, st)
         else case psa_import_key P
                \<lparr>psa_type = PSA_KEY_TYPE_AES, psa_bits = 128,
                 psa_usage = PSA_KEY_USAGE_SIGN_MESSAGE, psa_alg = PSA_ALG_CMAC\<rparr>
                (network_key st) (psa_store st) of (status, kid, ks) \<Rightarrow>
           let st = st\<lparr>auth_key_id := kid, psa_store := ks\<rparr> in
           if status \<noteq> PSA_SUCCESS then (-EIO, st) else (0, st))"

definition ts_auth_get_key :: "'k auth_state \<Rightarrow> bytes" where
  "ts_auth_get_key st = network_key st"

text \<open>\<open>CONFIG_TS_KEY_ID\<close>, cast to a byte.\<close>

definition ts_auth_get_key_id :: "int \<Rightarrow> uint8_t" where
  "ts_auth_get_key_id config_ts_key_id = word_of_int config_ts_key_id"

text \<open>
  A pointer that may be NULL is an option. The result is the error code, or the tag written
  to \<open>p_tag\<close>.
\<close>

definition ts_auth_sign :: "'k psa_api \<Rightarrow> bytes option \<Rightarrow> nat \<Rightarrow> 'k auth_state \<Rightarrow> int + bytes" where
  "ts_auth_sign P p_data data_len st =
    (if p_data = None \<and> data_len > 0 then Inl (-EINVAL)
     else case psa_mac_compute P (psa_store st) (auth_key_id st) PSA_ALG_CMAC
                 (take data_len (case p_data of Some d \<Rightarrow> d | None \<Rightarrow> [0])) of (status, full_mac) \<Rightarrow>
       if status \<noteq> PSA_SUCCESS then Inl (-EIO)
       else Inr (take TS_AUTH_TAG_SIZE full_mac))"

definition tag_diff :: "bytes \<Rightarrow> bytes \<Rightarrow> uint8_t" where
  "tag_diff computed_tag p_tag =
    foldl (\<lambda>diff i. diff OR (computed_tag ! i XOR p_tag ! i)) 0 [0..<TS_AUTH_TAG_SIZE]"

definition ts_auth_verify :: "'k psa_api \<Rightarrow> bytes option \<Rightarrow> nat \<Rightarrow> bytes \<Rightarrow> 'k auth_state \<Rightarrow> int" where
  "ts_auth_verify P p_data data_len p_tag st =
    (if p_data = None \<and> data_len > 0 then -EINVAL
     else case ts_auth_sign P p_data data_len st of
       Inl ret \<Rightarrow> ret
     | Inr computed_tag \<Rightarrow> (if tag_diff computed_tag p_tag = 0 then 0 else -EACCES))"

section \<open>What the radio relies on\<close>

locale authenticator =
  fixes sign :: "'a \<Rightarrow> bytes \<Rightarrow> int + bytes"
    and verify :: "'a \<Rightarrow> bytes \<Rightarrow> bytes \<Rightarrow> int"
    and tag_len :: nat
  assumes sign_length: "sign a d = Inr t \<Longrightarrow> length t = tag_len"
    and sign_error: "sign a d = Inl e \<Longrightarrow> e \<noteq> 0 \<and> verify a d t = e"
    and verify_tag: "sign a d = Inr t \<Longrightarrow> length t' = tag_len \<Longrightarrow>
      verify a d t' = (if t' = t then 0 else -EACCES)"
begin

lemma verify_iff:
  assumes "length t = tag_len"
  shows "verify a d t = 0 \<longleftrightarrow> sign a d = Inr t"
proof (cases "sign a d")
  case (Inl e)
  with sign_error [OF Inl, of t] show ?thesis by simp
next
  case (Inr t')
  with verify_tag [OF Inr assms] show ?thesis by auto
qed

lemma accepts_own: "sign a d = Inr t \<Longrightarrow> verify a d t = 0"
  using verify_iff sign_length by blast

lemma accepted_tag_unique:
  "length t = tag_len \<Longrightarrow> length t' = tag_len \<Longrightarrow> verify a d t = 0 \<Longrightarrow> verify a d t' = 0 \<Longrightarrow> t = t'"
  using verify_iff by simp

text \<open>A packet is a message followed by its tag.\<close>

definition packet_ok :: "'a \<Rightarrow> bytes \<Rightarrow> bool" where
  "packet_ok a p \<longleftrightarrow> tag_len < length p \<and>
     verify a (take (length p - tag_len) p) (drop (length p - tag_len) p) = 0"

lemma packet_ok_iff:
  "packet_ok a p \<longleftrightarrow> (\<exists>d t. d \<noteq> [] \<and> p = d @ t \<and> sign a d = Inr t)"
proof
  assume *: "packet_ok a p"
  let ?d = "take (length p - tag_len) p" and ?t = "drop (length p - tag_len) p"
  from * have "length ?t = tag_len" "?d \<noteq> []" by (auto simp: packet_ok_def)
  with * show "\<exists>d t. d \<noteq> [] \<and> p = d @ t \<and> sign a d = Inr t"
    using verify_iff [of ?t a ?d] by (intro exI [of _ ?d] exI [of _ ?t]) (auto simp: packet_ok_def)
next
  assume "\<exists>d t. d \<noteq> [] \<and> p = d @ t \<and> sign a d = Inr t"
  then obtain d t where dt: "d \<noteq> []" "p = d @ t" "sign a d = Inr t" by blast
  with sign_length [OF dt(3)] accepts_own [OF dt(3)] show "packet_ok a p"
    by (cases d) (auto simp: packet_ok_def)
qed

end

section \<open>Tag comparison\<close>

lemma xor_zero_iff: "(x :: uint8_t) XOR y = 0 \<longleftrightarrow> x = y"
proof
  assume "x XOR y = 0"
  then have "(x XOR y) XOR y = y" by simp
  then show "x = y" by (simp add: xor.assoc)
qed simp

lemma tag_diff_loop:
  "foldl (\<lambda>diff i. diff OR (a ! i XOR b ! i)) 0 [0..<n] = (0 :: uint8_t) \<longleftrightarrow> (\<forall>i < n. a ! i = b ! i)"
  by (induction n) (auto simp: or_eq_0_iff xor_zero_iff less_Suc_eq)

text \<open>The accumulated difference is zero exactly when the tags agree.\<close>

lemma tag_diff_zero_iff:
  assumes "length a = 8" "length b = 8"
  shows "tag_diff a b = 0 \<longleftrightarrow> a = b"
  using assms unfolding tag_diff_def TS_AUTH_TAG_SIZE_def tag_diff_loop by (auto intro: nth_equalityI)

section \<open>Parsing the key\<close>

text \<open>What a hexadecimal digit means, and when a string denotes a key.\<close>

definition hex_digit :: "char \<Rightarrow> nat option" where
  "hex_digit = map_of (zip ''0123456789abcdefABCDEF''
     [0, 1, 2, 3, 4, 5, 6, 7, 8, 9, 10, 11, 12, 13, 14, 15, 10, 11, 12, 13, 14, 15])"

definition denotes_key :: "string \<Rightarrow> bytes \<Rightarrow> bool" where
  "denotes_key hex kb \<longleftrightarrow> length hex = 32 \<and> length kb = 16 \<and>
     (\<forall>i < 16. hex_digit (hex ! (i * 2)) = Some (unat (kb ! i) div 16) \<and>
               hex_digit (hex ! (i * 2 + 1)) = Some (unat (kb ! i) mod 16))"

lemma nibble_hex_digit:
  "hex_char_to_nibble c = (case hex_digit c of None \<Rightarrow> -1 | Some n \<Rightarrow> int n)"
proof -
  have "\<forall>c. hex_char_to_nibble c = (case hex_digit c of None \<Rightarrow> -1 | Some n \<Rightarrow> int n)"
    by code_simp
  then show ?thesis by blast
qed

lemma nibbles_byte:
  assumes "0 \<le> lo" "lo < 16"
  shows "push_bit 4 hi OR lo = 16 * hi + (lo :: int)"
  using assms concat_bit_eq [of 4 lo hi]
  by (simp add: concat_bit_def take_bit_int_eq_self push_bit_eq_mult or.commute)

lemma parse_good:
  assumes "denotes_key hex kb" "set is \<subseteq> {..<16}" "length key = 16"
  shows "\<exists>key'. parse_network_key hex is key = (True, key') \<and> length key' = 16 \<and>
    (\<forall>i < 16. key' ! i = (if i \<in> set is then kb ! i else key ! i))"
  using assms(2,3)
proof (induction "is" arbitrary: key)
  case (Cons i "is")
  then have i: "i < 16" by simp
  have hi: "hex_char_to_nibble (hex ! (i * 2)) = int (unat (kb ! i) div 16)"
    and lo: "hex_char_to_nibble (hex ! (i * 2 + 1)) = int (unat (kb ! i) mod 16)"
    using assms(1) i by (auto simp: nibble_hex_digit denotes_key_def)
  have "push_bit 4 (int (n div 16)) OR int (n mod 16) = int n" for n :: nat
    by (subst nibbles_byte) (simp_all add: zdiv_int zmod_int)
  then have b: "parse_network_key hex (i # is) key = parse_network_key hex is (key[i := kb ! i])"
    using hi lo by (simp add: Let_def)
  show ?case unfolding b
    using Cons.IH [of "key[i := kb ! i]"] Cons.prems by (auto simp: nth_list_update)
qed simp

lemma parse_bad:
  assumes "i \<in> set is" "hex_char_to_nibble (hex ! (i * 2)) < 0 \<or> hex_char_to_nibble (hex ! (i * 2 + 1)) < 0"
  shows "\<exists>key'. parse_network_key hex is key = (False, key')"
  using assms
  by (induction "is" arbitrary: key) (auto simp: Let_def)

section \<open>Every PSA implementation gives an authenticator\<close>

abbreviation sign_bytes :: "'k psa_api \<Rightarrow> 'k auth_state \<Rightarrow> bytes \<Rightarrow> int + bytes" where
  "sign_bytes P st d \<equiv> ts_auth_sign P (Some d) (length d) st"

abbreviation verify_bytes :: "'k psa_api \<Rightarrow> 'k auth_state \<Rightarrow> bytes \<Rightarrow> bytes \<Rightarrow> int" where
  "verify_bytes P st d t \<equiv> ts_auth_verify P (Some d) (length d) t st"

lemma sign_result:
  "sign_bytes P st d =
    (case psa_mac_compute P (psa_store st) (auth_key_id st) PSA_ALG_CMAC d of (status, m) \<Rightarrow>
       if status \<noteq> 0 then Inl (-EIO) else Inr (take 8 m))"
  by (simp add: ts_auth_sign_def TS_AUTH_TAG_SIZE_def split: prod.split)

sublocale psa \<subseteq> auth: authenticator "sign_bytes P" "verify_bytes P" 8
proof
  fix st d t e t'
  show len: "length t = 8" if "sign_bytes P st d = Inr t"
    using that mac_length by (auto simp: sign_result split: prod.splits if_splits)
  show "e \<noteq> 0 \<and> verify_bytes P st d t = e" if "sign_bytes P st d = Inl e"
    using that by (auto simp: ts_auth_verify_def) (auto simp: sign_result split: prod.splits if_splits)
  show "verify_bytes P st d t' = (if t' = t then 0 else -EACCES)"
    if "sign_bytes P st d = Inr t" "length t' = 8"
    using that tag_diff_zero_iff [OF len that(2)] by (auto simp: ts_auth_verify_def)
qed

context psa
begin

lemma verify_iff': "length t = 8 \<Longrightarrow> verify_bytes P st d t = 0 \<longleftrightarrow> sign_bytes P st d = Inr t"
  by (rule auth.verify_iff)

lemma sign_length': "sign_bytes P st d = Inr t \<Longrightarrow> length t = 8"
  by (rule auth.sign_length)

lemma verify_exact:
  assumes "length t = 8"
  shows "verify_bytes P st d t =
    (case psa_mac_compute P (psa_store st) (auth_key_id st) PSA_ALG_CMAC d of (status, m) \<Rightarrow>
       if status \<noteq> 0 then -EIO else if t = take 8 m then 0 else -EACCES)"
proof (cases "psa_mac_compute P (psa_store st) (auth_key_id st) PSA_ALG_CMAC d")
  case (Pair status m)
  show ?thesis
  proof (cases "status = 0")
    case True
    with Pair have "sign_bytes P st d = Inr (take 8 m)" by (simp add: sign_result)
    from auth.verify_tag [OF this assms] Pair True show ?thesis by simp
  next
    case False
    with Pair have "sign_bytes P st d = Inl (-EIO)" by (simp add: sign_result)
    from auth.sign_error [OF this, of t] Pair False show ?thesis by simp
  qed
qed

end

text \<open>(C18) Packet authentication is exact: for a tag of eight bytes, \<open>ts_auth_verify\<close> returns 0
  exactly when the tag is the first eight bytes of the MAC of the data, \<open>-EACCES\<close> for every
  other tag, and \<open>-EIO\<close> when the MAC cannot be computed.\<close>

theorem ts_auth_verify_exact:
  assumes "psa P cmac" "length t = TS_AUTH_TAG_SIZE"
  shows "ts_auth_verify P (Some d) (length d) t st =
    (case psa_mac_compute P (psa_store st) (auth_key_id st) PSA_ALG_CMAC d of (status, m) \<Rightarrow>
       if status \<noteq> PSA_SUCCESS then -EIO
       else if t = take TS_AUTH_TAG_SIZE m then 0 else -EACCES)"
  using psa.verify_exact [OF assms(1), of t d st] assms(2)
  by (simp add: TS_AUTH_TAG_SIZE_def split: prod.split)

text \<open>A node that has loaded a key, on the reference platform.\<close>

definition ref_key_hex :: string where
  "ref_key_hex = ''00112233445566778899aabbCCDDEEFF''"

definition ref_key :: bytes where
  "ref_key = [0x00, 0x11, 0x22, 0x33, 0x44, 0x55, 0x66, 0x77,
              0x88, 0x99, 0xAA, 0xBB, 0xCC, 0xDD, 0xEE, 0xFF]"

definition blank_auth :: "ref_keys auth_state" where
  "blank_auth = \<lparr>network_key = replicate 16 0, auth_key_id = 0, psa_store = []\<rparr>"

definition ref_auth :: "ref_keys auth_state" where
  "ref_auth = \<lparr>network_key = ref_key, auth_key_id = 1, psa_store = [(1, ref_key)]\<rparr>"

lemma ref_auth_init: "ts_auth_init ref_psa ref_key_hex blank_auth = (0, ref_auth)"
  unfolding ref_psa_def ref_key_hex_def blank_auth_def ref_auth_def ref_key_def by code_simp

lemma denotes_ref_key: "denotes_key ref_key_hex ref_key"
proof -
  have "\<forall>i \<in> set [0..<16]. hex_digit (ref_key_hex ! (i * 2)) = Some (unat (ref_key ! i) div 16) \<and>
      hex_digit (ref_key_hex ! (i * 2 + 1)) = Some (unat (ref_key ! i) mod 16)"
    by code_simp
  then show ?thesis
    by (simp only: denotes_key_def set_upt atLeast0LessThan lessThan_iff Ball_def)
      (simp add: ref_key_hex_def ref_key_def)
qed

theorem ts_auth_verify_exact_witness:
  "ts_auth_verify ref_psa (Some [1, 2, 3]) 3 (take 8 (ref_cmac ref_key [1, 2, 3])) ref_auth = 0 \<and>
   ts_auth_verify ref_psa (Some [1, 2, 3]) 3 (replicate 8 0) ref_auth = -EACCES"
proof -
  have mac: "psa_mac_compute ref_psa (psa_store ref_auth) (auth_key_id ref_auth) PSA_ALG_CMAC d =
      (0, ref_cmac ref_key d)" for d
    by (simp add: ref_psa_def ref_auth_def)
  have "take 8 (ref_cmac ref_key [1, 2, 3]) \<noteq> replicate 8 0" by code_simp
  with ts_auth_verify_exact [OF ref_psa.psa_axioms,
      of "take 8 (ref_cmac ref_key [1, 2, 3])" "[1, 2, 3]" ref_auth]
    ts_auth_verify_exact [OF ref_psa.psa_axioms, of "replicate 8 0" "[1, 2, 3]" ref_auth]
    ref_psa.cmac_length [of ref_key "[1, 2, 3]"]
  show ?thesis by (simp add: mac TS_AUTH_TAG_SIZE_def eval_nat_numeral)
qed

section \<open>Provisioning\<close>

text \<open>\<open>ts_auth_init\<close> on a well-formed key string, step by step.\<close>

lemma init_loads_key:
  assumes "denotes_key hex kb" "length (network_key st) = 16" "ts_auth_init P hex st = (0, st')"
  shows "network_key st' = kb \<and>
    (\<exists>ks. psa_import_key P \<lparr>psa_type = PSA_KEY_TYPE_AES, psa_bits = 128,
        psa_usage = PSA_KEY_USAGE_SIGN_MESSAGE, psa_alg = PSA_ALG_CMAC\<rparr> kb ks =
      (0, auth_key_id st', psa_store st'))"
proof -
  have "\<exists>key. parse_network_key hex [0..<16] (network_key st) = (True, key) \<and> length key = 16 \<and>
      (\<forall>i < 16. key ! i = kb ! i)"
    using parse_good [OF assms(1) _ assms(2), of "[0..<16]"] by (auto simp: atLeast0LessThan)
  then have p: "parse_network_key hex [0..<16] (network_key st) = (True, kb)"
    using assms(1) by (auto simp: denotes_key_def intro!: nth_equalityI)
  show ?thesis
    using assms(1,3) p
    by (auto simp: ts_auth_init_def TS_AUTH_KEY_SIZE_def denotes_key_def Let_def
        split: prod.splits if_splits)
qed

context psa
begin

lemma loaded_mac:
  assumes "denotes_key hex kb" "length (network_key st0) = 16" "ts_auth_init P hex st0 = (0, st)"
    and "psa_mac_compute P (psa_store st) (auth_key_id st) PSA_ALG_CMAC d = (0, m)"
  shows "m = cmac kb d"
proof -
  have "length kb = 16" using assms(1) by (simp add: denotes_key_def)
  with init_loads_key [OF assms(1-3)] mac_imported assms(4) show ?thesis by fastforce
qed

lemma loaded_sign:
  assumes "denotes_key hex kb" "length (network_key st0) = 16" "ts_auth_init P hex st0 = (0, st)"
    and "sign_bytes P st d = Inr t"
  shows "t = take 8 (cmac kb d)"
  using loaded_mac [OF assms(1-3)] assms(4) by (auto simp: sign_result split: prod.splits if_splits)

end

text \<open>The tag a provisioned node computes while the crypto backend works.\<close>

lemma sign_loaded:
  assumes "psa P cmac" "denotes_key hex kb" "length (network_key a0) = 16" "ts_auth_init P hex a0 = (0, a)"
    and "fst (psa_mac_compute P (psa_store a) (auth_key_id a) PSA_ALG_CMAC d) = 0"
  shows "ts_auth_sign P (Some d) (length d) a = Inr (take 8 (cmac kb d))"
proof -
  obtain m where m: "psa_mac_compute P (psa_store a) (auth_key_id a) PSA_ALG_CMAC d = (0, m)"
    using assms(5) by (metis prod.collapse)
  with psa.loaded_mac [OF assms(1-4) m] show ?thesis by (simp add: sign_result)
qed

text \<open>A key string of 32 hexadecimal digits, of either case, is parsed to the key it denotes
  and imported: afterwards every tag the node computes is the truncated CMAC under that key,
  and two nodes provisioned with strings that denote the same key accept each other's tags,
  as long as the crypto backend works.\<close>

lemma provisioned_nodes_agree:
  assumes "psa P cmac" "denotes_key hex kb" "denotes_key hex' kb"
    and "length (network_key a0) = 16" "ts_auth_init P hex a0 = (0, a)"
    and "length (network_key b0) = 16" "ts_auth_init P hex' b0 = (0, b)"
    and "ts_auth_sign P (Some d) (length d) a = Inr t"
    and "fst (psa_mac_compute P (psa_store b) (auth_key_id b) PSA_ALG_CMAC d) = PSA_SUCCESS"
  shows "ts_auth_get_key a = kb \<and> t = take TS_AUTH_TAG_SIZE (cmac kb d) \<and>
    ts_auth_verify P (Some d) (length d) t b = 0"
proof -
  have t: "t = take 8 (cmac kb d)"
    by (rule psa.loaded_sign [OF assms(1,2,4,5,8)])
  then have "length t = 8" using psa.cmac_length [OF assms(1)] by simp
  with psa.verify_iff' [OF assms(1)] sign_loaded [OF assms(1,3,6,7,9)] t
    init_loads_key [OF assms(2,4,5)]
  show ?thesis by (simp add: ts_auth_get_key_def TS_AUTH_TAG_SIZE_def)
qed

text \<open>A key string of the wrong length, or with a character that is not a hexadecimal digit,
  is refused with \<open>-EINVAL\<close> before anything is imported: the key store and the key handle
  are as before.\<close>

lemma malformed_key:
  assumes "length hex \<noteq> 2 * TS_AUTH_KEY_SIZE \<or> (\<exists>c \<in> set hex. hex_digit c = None)"
  shows "\<exists>st'. ts_auth_init P hex st = (-EINVAL, st') \<and>
    psa_store st' = psa_store st \<and> auth_key_id st' = auth_key_id st"
proof (cases "length hex = 32")
  case False
  then show ?thesis by (simp add: ts_auth_init_def TS_AUTH_KEY_SIZE_def)
next
  case True
  with assms obtain j where j: "j < 32" "hex_digit (hex ! j) = None"
    by (auto simp: TS_AUTH_KEY_SIZE_def in_set_conv_nth)
  then have bad: "hex_char_to_nibble (hex ! j) < 0" by (simp add: nibble_hex_digit)
  have "j = j div 2 * 2 \<or> j = j div 2 * 2 + 1" by presburger
  with bad have "hex_char_to_nibble (hex ! (j div 2 * 2)) < 0 \<or>
      hex_char_to_nibble (hex ! (j div 2 * 2 + 1)) < 0" by metis
  with parse_bad [of "j div 2" "[0..<16]" hex "network_key st"] j(1)
  have "\<exists>key. parse_network_key hex [0..<16] (network_key st) = (False, key)" by auto
  with True show ?thesis by (auto simp: ts_auth_init_def TS_AUTH_KEY_SIZE_def)
qed

end
