(* ===== verification/Cbor_Reference.thy ===== *)
theory Cbor_Reference
  imports Platform
begin

text \<open>
  A concrete zcbor: an encoder and decoder after RFC 8949 for the items the firmware uses
  (definite-length heads with up to four bytes of argument, maps of indefinite length). It
  shows that the contract \<open>zcbor_sized\<close> can be met, and evaluates the witnesses.
\<close>

fun be_bytes :: "nat \<Rightarrow> nat \<Rightarrow> bytes" where
  "be_bytes 0 n = []"
| "be_bytes (Suc k) n = of_nat (n div 256 ^ k) # be_bytes k (n mod 256 ^ k)"

definition cbor_head :: "nat \<Rightarrow> nat \<Rightarrow> bytes" where
  "cbor_head mt n =
    (if n < 24 then [of_nat (mt * 32 + n)]
     else if n < 256 then of_nat (mt * 32 + 24) # be_bytes 1 n
     else if n < 65536 then of_nat (mt * 32 + 25) # be_bytes 2 n
     else of_nat (mt * 32 + 26) # be_bytes 4 n)"

fun be_val :: "bytes \<Rightarrow> nat" where
  "be_val [] = 0"
| "be_val (b # bs) = unat b * 256 ^ length bs + be_val bs"

definition take_be :: "nat \<Rightarrow> bytes \<Rightarrow> (nat \<times> bytes) option" where
  "take_be k bs = (if length bs < k then None else Some (be_val (take k bs), drop k bs))"

definition read_head :: "nat \<Rightarrow> bytes \<Rightarrow> (nat \<times> bytes) option" where
  "read_head mt bs =
    (case bs of
       [] \<Rightarrow> None
     | b # bs \<Rightarrow>
         (if unat b div 32 \<noteq> mt then None
          else let ai = unat b mod 32 in
            if ai < 24 then Some (ai, bs)
            else if ai = 24 then take_be 1 bs
            else if ai = 25 then take_be 2 bs
            else if ai = 26 then take_be 4 bs
            else None))"

definition char_byte :: "char \<Rightarrow> uint8_t" where
  "char_byte c = of_nat (of_char c)"

definition byte_char :: "uint8_t \<Rightarrow> char" where
  "byte_char b = char_of (unat b)"

definition ref_wire :: "cbor_item \<Rightarrow> bytes" where
  "ref_wire it =
    (case it of
       TStr s \<Rightarrow> cbor_head 3 (length s) @ map char_byte s
     | UInt v \<Rightarrow> cbor_head 0 (unat v)
     | SInt i \<Rightarrow> (if 0 \<le> sint i then cbor_head 0 (nat (sint i)) else cbor_head 1 (nat (-1 - sint i)))
     | MapStart n \<Rightarrow> [0xBF]
     | MapEnd n \<Rightarrow> [0xFF])"

text \<open>An encoder is what it has written and the size of its buffer; a decoder is the bytes
  left and the container backups left.\<close>

definition ref_put :: "bytes \<Rightarrow> bytes \<times> nat \<Rightarrow> (bytes \<times> nat) option" where
  "ref_put w e = (if length w \<le> snd e then Some (fst e @ w, snd e - length w) else None)"

definition ref_get_string :: "bytes \<Rightarrow> (string \<times> bytes) option" where
  "ref_get_string bs =
    (case read_head 3 bs of
       None \<Rightarrow> None
     | Some (n, r) \<Rightarrow> if length r < n then None else Some (map byte_char (take n r), drop n r))"

definition ref_get_int :: "bytes \<Rightarrow> (int32_t \<times> bytes) option" where
  "ref_get_int bs =
    (case read_head 0 bs of
       Some (n, r) \<Rightarrow> if n < 2147483648 then Some (of_nat n, r) else None
     | None \<Rightarrow>
        (case read_head 1 bs of
           Some (n, r) \<Rightarrow> if n < 2147483648 then Some (-1 - of_nat n, r) else None
         | None \<Rightarrow> None))"

definition ref_zcbor :: "(bytes \<times> nat, bytes \<times> nat) zcbor_api" where
  "ref_zcbor =
    \<lparr> zcbor_new_encode = (\<lambda>backups n. ([], n)),
      zcbor_payload = fst,
      zcbor_tstr_put_lit = (\<lambda>s. ref_put (ref_wire (TStr s))),
      zcbor_tstr_put_term = (\<lambda>a n. ref_put (ref_wire (TStr (cstr (take n a))))),
      zcbor_uint32_put = (\<lambda>v. ref_put (ref_wire (UInt v))),
      zcbor_int32_put = (\<lambda>i. ref_put (ref_wire (SInt i))),
      zcbor_map_start_encode = (\<lambda>n. ref_put (ref_wire (MapStart n))),
      zcbor_map_end_encode = (\<lambda>n. ref_put (ref_wire (MapEnd n))),
      zcbor_new_decode = (\<lambda>backups bs n. (bs, backups)),
      zcbor_tstr_expect_lit = (\<lambda>s (bs, k).
        case ref_get_string bs of
          None \<Rightarrow> None | Some (s', r) \<Rightarrow> if s' = s then Some (r, k) else None),
      zcbor_tstr_decode = (\<lambda>(bs, k). map_option (\<lambda>(s, r). (s, r, k)) (ref_get_string bs)),
      zcbor_uint32_decode = (\<lambda>(bs, k). map_option (\<lambda>(n, r). (of_nat n, r, k)) (read_head 0 bs)),
      zcbor_int32_decode = (\<lambda>(bs, k). map_option (\<lambda>(i, r). (i, r, k)) (ref_get_int bs)),
      zcbor_map_start_decode = (\<lambda>(bs, k).
        case bs of b # r \<Rightarrow> if b = 0xBF \<and> 0 < k then Some (r, k - 1) else None | [] \<Rightarrow> None),
      zcbor_map_end_decode = (\<lambda>(bs, k).
        case bs of b # r \<Rightarrow> if b = 0xFF then Some (r, k + 1) else None | [] \<Rightarrow> None) \<rparr>"

lemma byte_char_byte [simp]: "byte_char (char_byte c) = c"
  by (simp add: byte_char_def char_byte_def unat_of_nat)

lemma head_byte:
  assumes "mt < 8" "a < 32"
  shows "unat (of_nat (mt * 32 + a) :: uint8_t) = mt * 32 + a"
proof -
  from assms have "mt * 32 + a < 256" by simp
  then show ?thesis by (simp only: unat_of_nat) simp
qed

lemma length_be_bytes [simp]: "length (be_bytes k n) = k"
  by (induction k arbitrary: n) auto

lemma be_val_bytes: "n < 256 ^ k \<Longrightarrow> be_val (be_bytes k n) = n"
proof (induction k arbitrary: n)
  case (Suc k)
  then have "n div 256 ^ k < 256" by (simp add: less_mult_imp_div_less)
  then have "unat (of_nat (n div 256 ^ k) :: uint8_t) = n div 256 ^ k" by (simp add: unat_of_nat)
  with Suc.IH [of "n mod 256 ^ k"] show ?case by (simp add: div_mult_mod_eq)
qed simp

lemma take_be_bytes: "n < 256 ^ k \<Longrightarrow> take_be k (be_bytes k n @ r) = Some (n, r)"
  by (simp add: take_be_def be_val_bytes)

lemma take_be_cut: "strict_prefix p (be_bytes k n) \<Longrightarrow> take_be k p = None"
  using prefix_length_less [of p "be_bytes k n"] by (simp add: take_be_def)

text \<open>A head is one of four forms.\<close>

lemma head_forms:
  assumes "n < 4294967296"
  obtains "n < 24" "cbor_head mt n = [of_nat (mt * 32 + n)]"
  | k a where "cbor_head mt n = of_nat (mt * 32 + a) # be_bytes k n" "n < 256 ^ k"
      "(a, k) \<in> {(24, 1), (25, 2), (26, 4)}"
proof -
  consider "n < 24" | "24 \<le> n" "n < 256" | "256 \<le> n" "n < 65536" | "65536 \<le> n" by linarith
  then show ?thesis
  proof cases
    case 1
    with that(1) show ?thesis by (simp add: cbor_head_def)
  next
    case 2
    with that(2) [of 24 1] show ?thesis by (simp add: cbor_head_def)
  next
    case 3
    with that(2) [of 25 2] show ?thesis by (simp add: cbor_head_def)
  next
    case 4
    with that(2) [of 26 4] assms show ?thesis by (simp add: cbor_head_def)
  qed
qed

lemma read_head_long:
  assumes "mt < 8" "(a, k) \<in> {(24, 1), (25, 2), (26, 4)}"
  shows "read_head mt (of_nat (mt * 32 + a) # bs) = take_be k bs"
proof -
  have "a < 32" using assms(2) by auto
  with assms show ?thesis by (auto simp: read_head_def head_byte Let_def simp del: of_nat_add of_nat_mult)
qed

lemma read_head_head:
  assumes "mt < 8" "n < 4294967296"
  shows "read_head mt (cbor_head mt n @ r) = Some (n, r)"
  using assms(2)
proof (cases rule: head_forms [where mt = mt])
  case 1
  with head_byte [OF assms(1), of n] show ?thesis
    by (simp add: read_head_def Let_def del: of_nat_add of_nat_mult)
next
  case (2 k a)
  with read_head_long [OF assms(1) 2(3)] take_be_bytes [OF 2(2)] show ?thesis by simp
qed

lemma read_head_cut:
  assumes "mt < 8" "n < 4294967296" "strict_prefix p (cbor_head mt n)"
  shows "read_head mt p = None"
  using assms(2)
proof (cases rule: head_forms [where mt = mt])
  case 1
  with assms(3) show ?thesis by (auto simp: read_head_def strict_prefix_def prefix_Cons)
next
  case (2 k a)
  show ?thesis
  proof (cases p)
    case Nil
    then show ?thesis by (simp add: read_head_def)
  next
    case (Cons b q)
    with assms(3) 2(1) have "b = of_nat (mt * 32 + a)" "strict_prefix q (be_bytes k n)"
      by (auto simp: strict_prefix_def)
    with Cons read_head_long [OF assms(1) 2(3)] take_be_cut show ?thesis by simp
  qed
qed

lemma head_major:
  assumes "mt < 8" "n < 4294967296"
  shows "unat (hd (cbor_head mt n)) div 32 = mt"
  using assms(2)
proof (cases rule: head_forms [where mt = mt])
  case 1
  with head_byte [OF assms(1), of n] show ?thesis by (simp del: of_nat_add of_nat_mult)
next
  case (2 k a)
  then have "a < 32" by auto
  with 2 head_byte [OF assms(1), of a] show ?thesis by (simp del: of_nat_add of_nat_mult)
qed

lemma read_head_other:
  assumes "mt < 8" "mt \<noteq> mt'" "n < 4294967296" "prefix p (cbor_head mt n @ r)"
  shows "read_head mt' p = None"
proof (cases p)
  case (Cons b q)
  with assms(4) have "b = hd (cbor_head mt n)"
    by (cases "cbor_head mt n") (auto simp: cbor_head_def split: if_splits)
  with Cons head_major [OF assms(1,3)] assms(2) show ?thesis by (simp add: read_head_def)
qed (simp add: read_head_def)

lemma length_head: "length (cbor_head mt n) \<le> 5" "n < 24 \<Longrightarrow> length (cbor_head mt n) = 1"
  "n < 256 \<Longrightarrow> length (cbor_head mt n) \<le> 2" "cbor_head mt n \<noteq> []"
  by (auto simp: cbor_head_def)

lemma get_string:
  assumes "length s < 4294967296"
  shows "ref_get_string (ref_wire (TStr s) @ r) = Some (s, r)"
  using assms by (simp add: ref_get_string_def ref_wire_def read_head_head comp_def)

lemma get_string_cut:
  assumes "length s < 4294967296" "strict_prefix p (ref_wire (TStr s))"
  shows "ref_get_string p = None"
proof (cases "strict_prefix p (cbor_head 3 (length s))")
  case True
  with assms read_head_cut [of 3] show ?thesis by (simp add: ref_get_string_def)
next
  case False
  with assms(2) obtain q where "p = cbor_head 3 (length s) @ q" "prefix q (map char_byte s)"
    by (auto simp: ref_wire_def strict_prefix_def prefix_append)
  with assms have "p = cbor_head 3 (length s) @ q" "strict_prefix q (map char_byte s)"
    by (auto simp: ref_wire_def strict_prefix_def)
  with assms(1) prefix_length_less [of q "map char_byte s"] show ?thesis
    by (simp add: ref_get_string_def read_head_head)
qed

lemma sint_range: "- 2147483648 \<le> sint (i :: int32_t) \<and> sint i < 2147483648"
  using sint_lt [of i] sint_ge [of i] by simp

lemma get_int: "ref_get_int (ref_wire (SInt i) @ r) = Some (i, r)"
proof (cases "0 \<le> sint i")
  case True
  then have "nat (sint i) < 2147483648" using sint_range [of i] by simp
  with True show ?thesis by (simp add: ref_get_int_def ref_wire_def read_head_head)
next
  case False
  let ?n = "nat (-1 - sint i)"
  have n: "?n < 2147483648" using False sint_range [of i] by simp
  have "(of_nat ?n :: int32_t) = word_of_int (-1 - sint i)"
    using False by (simp add: of_nat_nat)
  then have "-1 - of_nat ?n = i" by simp
  moreover have "read_head 0 (cbor_head 1 ?n @ r) = None"
    by (rule read_head_other [of 1 0 ?n _ r]) (use n in simp_all)
  moreover have "read_head 1 (cbor_head 1 ?n @ r) = Some (?n, r)"
    by (rule read_head_head) (use n in simp_all)
  moreover have "ref_wire (SInt i) = cbor_head 1 ?n" using False by (simp add: ref_wire_def)
  ultimately show ?thesis using n by (simp only: ref_get_int_def option.case prod.case if_True)
qed

lemma get_int_cut: "strict_prefix p (ref_wire (SInt i)) \<Longrightarrow> ref_get_int p = None"
proof (cases "0 \<le> sint i")
  case True
  let ?n = "nat (sint i)"
  assume p: "strict_prefix p (ref_wire (SInt i))"
  have n: "?n < 4294967296" using True sint_range [of i] by simp
  with p True read_head_cut [of 0 ?n p] read_head_other [of 0 1 ?n p "[]"] show ?thesis
    by (simp add: ref_get_int_def ref_wire_def strict_prefix_def)
next
  case False
  let ?n = "nat (-1 - sint i)"
  assume p: "strict_prefix p (ref_wire (SInt i))"
  have n: "?n < 4294967296" using False sint_range [of i] by simp
  with p False read_head_cut [of 1 ?n p] read_head_other [of 1 0 ?n p "[]"] show ?thesis
    by (simp add: ref_get_int_def ref_wire_def strict_prefix_def)
qed

lemma ref_puts: "puts_item ref_zcbor snd (ref_put w) w"
  by (auto simp: puts_item_def ref_put_def ref_zcbor_def)

lemma unat_u32_less: "unat (v :: uint32_t) < 4294967296"
  by (rule order.strict_trans2 [OF unsigned_less]) simp

interpretation ref_zcbor: zcbor_sized ref_zcbor ref_wire snd fst snd
proof
  fix s :: string and a :: "char list" and n b :: nat and v :: uint32_t and i :: int32_t and bs it
  show "zcbor_payload ref_zcbor (zcbor_new_encode ref_zcbor b n) = [] \<and>
      snd (zcbor_new_encode ref_zcbor b n) = n"
    by (simp add: ref_zcbor_def)
  show "ref_wire it \<noteq> []" by (cases it) (auto simp: ref_wire_def length_head)
  show "puts_item ref_zcbor snd (zcbor_tstr_put_lit ref_zcbor s) (ref_wire (TStr s))"
    "puts_item ref_zcbor snd (zcbor_tstr_put_term ref_zcbor a n) (ref_wire (TStr (cstr (take n a))))"
    "puts_item ref_zcbor snd (zcbor_uint32_put ref_zcbor v) (ref_wire (UInt v))"
    "puts_item ref_zcbor snd (zcbor_int32_put ref_zcbor i) (ref_wire (SInt i))"
    "puts_item ref_zcbor snd (zcbor_map_start_encode ref_zcbor n) (ref_wire (MapStart n))"
    "puts_item ref_zcbor snd (zcbor_map_end_encode ref_zcbor n) (ref_wire (MapEnd n))"
    using ref_puts by (simp_all add: ref_zcbor_def)
  show "fst (zcbor_new_decode ref_zcbor b bs n) = bs \<and> snd (zcbor_new_decode ref_zcbor b bs n) = b"
    by (simp add: ref_zcbor_def)
  show "reads_item fst snd (zcbor_uint32_decode ref_zcbor) (ref_wire (UInt v)) v (\<lambda>_. True) (\<lambda>k. k)"
    by (auto simp: reads_item_def ref_zcbor_def ref_wire_def unat_u32_less
        read_head_head read_head_cut [of 0 "unat v"])
  show "reads_item fst snd (zcbor_int32_decode ref_zcbor) (ref_wire (SInt i)) i (\<lambda>_. True) (\<lambda>k. k)"
    by (auto simp: reads_item_def ref_zcbor_def get_int get_int_cut)
  show "reads_item fst snd (no_value (zcbor_map_start_decode ref_zcbor)) (ref_wire (MapStart n)) ()
      (\<lambda>k. 0 < k) (\<lambda>k. k - 1)"
    by (auto simp: reads_item_def ref_zcbor_def no_value_def ref_wire_def strict_prefix_def prefix_Cons)
  show "reads_item fst snd (no_value (zcbor_map_end_decode ref_zcbor)) (ref_wire (MapEnd n)) ()
      (\<lambda>_. True) (\<lambda>k. k + 1)"
    by (auto simp: reads_item_def ref_zcbor_def no_value_def ref_wire_def strict_prefix_def prefix_Cons)
  show "length (ref_wire (UInt v)) \<le> 5" "length (ref_wire (SInt i)) \<le> 5"
    by (simp_all add: ref_wire_def length_head)
  show "n < 24 \<Longrightarrow> length (ref_wire (MapStart n)) \<le> 1" "length (ref_wire (MapEnd n)) \<le> 1"
    by (simp_all add: ref_wire_def)
  show "length (ref_wire (TStr s)) \<le> length s + (if length s < 24 then 1 else 2)"
    if "length s < 256" using that length_head(2,3) [of "length s" 3] by (simp add: ref_wire_def)
  assume s: "length s < 2 ^ 32"
  show "reads_item fst snd (no_value (zcbor_tstr_expect_lit ref_zcbor s)) (ref_wire (TStr s)) ()
      (\<lambda>_. True) (\<lambda>k. k)"
    using s by (auto simp: reads_item_def ref_zcbor_def no_value_def get_string get_string_cut)
  show "reads_item fst snd (zcbor_tstr_decode ref_zcbor) (ref_wire (TStr s)) s (\<lambda>_. True) (\<lambda>k. k)"
    using s by (auto simp: reads_item_def ref_zcbor_def get_string get_string_cut)
qed

end
