(* ===== verification/Cbor.thy ===== *)
theory Cbor
  imports Messages Cbor_Reference "HOL-Library.Monad_Syntax"
begin

text \<open>
  Message encoding: \<open>src/lora/cbor.h\<close> and \<open>src/lora/cbor.c\<close>, with zcbor as a parameter.
  The encoder functions are chains of zcbor calls (\<open>all_ok\<close>), the decoder functions
  sequences in the option monad, \<open>None\<close> being the result \<open>-EBADMSG\<close>. The reference
  encoding of a message is its list of CBOR items, \<open>msg_items\<close>. In the locale \<open>zcbor\<close> the
  theory proves that the encoder writes exactly these items or reports that they do not
  fit, that the decoder inverts it, and that it rejects every truncation.
\<close>

section \<open>Serialisation\<close>

definition ZBOR_ENCODE_BUFFER_SIZE :: nat where
  "ZBOR_ENCODE_BUFFER_SIZE = 256"

definition serialize_route :: "('e, 'd) zcbor_api \<Rightarrow> ts_route_header \<Rightarrow> 'e \<Rightarrow> 'e option" where
  "serialize_route Z p_route = all_ok
    [zcbor_tstr_put_lit Z ''route'',
     zcbor_map_start_encode Z 5,
     zcbor_tstr_put_lit Z ''src'',
     zcbor_uint32_put Z (ucast (rh_src p_route)),
     zcbor_tstr_put_lit Z ''dst'',
     zcbor_uint32_put Z (ucast (rh_dst p_route)),
     zcbor_tstr_put_lit Z ''msg_id'',
     zcbor_uint32_put Z (rh_msg_id p_route),
     zcbor_tstr_put_lit Z ''ttl'',
     zcbor_uint32_put Z (ucast (rh_ttl p_route)),
     zcbor_tstr_put_lit Z ''key_id'',
     zcbor_uint32_put Z (ucast (rh_key_id p_route)),
     zcbor_map_end_encode Z 5]"

text \<open>The \<open>switch\<close> of \<open>cbor_serialize\<close>: the calls for the payload of each known type.\<close>

fun serialize_data :: "('e, 'd) zcbor_api \<Rightarrow> ts_msg_data \<Rightarrow> ('e \<Rightarrow> 'e option) option" where
  "serialize_data Z (Telemetry t) = Some (all_ok
    [zcbor_map_start_encode Z 4,
     zcbor_tstr_put_lit Z ''timestamp'',
     zcbor_uint32_put Z (tel_timestamp t),
     zcbor_tstr_put_lit Z ''temperature'',
     zcbor_int32_put Z (tel_temperature t),
     zcbor_tstr_put_lit Z ''humidity'',
     zcbor_uint32_put Z (tel_humidity t),
     zcbor_tstr_put_lit Z ''pressure'',
     zcbor_uint32_put Z (tel_pressure t),
     zcbor_map_end_encode Z 4])"
| "serialize_data Z (Node_Status n) = Some (all_ok
    [zcbor_map_start_encode Z 3,
     zcbor_tstr_put_lit Z ''timestamp'',
     zcbor_uint32_put Z (ns_timestamp n),
     zcbor_tstr_put_lit Z ''uptime'',
     zcbor_uint32_put Z (ns_uptime n),
     zcbor_tstr_put_lit Z ''status'',
     zcbor_uint32_put Z (ns_status n),
     zcbor_map_end_encode Z 3])"
| "serialize_data Z (Config_Set c) = Some (all_ok
    [zcbor_map_start_encode Z 2,
     zcbor_tstr_put_lit Z ''key'',
     zcbor_tstr_put_term Z (cs_key c) TS_MSG_CONFIG_KEY_MAX,
     zcbor_tstr_put_lit Z ''value'',
     zcbor_int32_put Z (cs_value c),
     zcbor_map_end_encode Z 2])"
| "serialize_data Z (Config_Ack c) = Some (all_ok
    [zcbor_map_start_encode Z 3,
     zcbor_tstr_put_lit Z ''key'',
     zcbor_tstr_put_term Z (ca_key c) TS_MSG_CONFIG_KEY_MAX,
     zcbor_tstr_put_lit Z ''value'',
     zcbor_int32_put Z (ca_value c),
     zcbor_tstr_put_lit Z ''result'',
     zcbor_int32_put Z (ca_result c),
     zcbor_map_end_encode Z 3])"
| "serialize_data Z (Unknown_Type _) = None"

text \<open>The result is the error code, or the bytes written (\<open>*p_size\<close> is their number).\<close>

definition cbor_serialize :: "('e, 'd) zcbor_api \<Rightarrow> ts_msg_lora_outgoing \<Rightarrow> nat \<Rightarrow> int + bytes" where
  "cbor_serialize Z msg buf_len =
    (case zcbor_map_start_encode Z 3 (zcbor_new_encode Z 0 buf_len) of
       None \<Rightarrow> Inl (-ENOMEM)
     | Some st \<Rightarrow>
    (case all_ok [zcbor_tstr_put_lit Z ''type'', zcbor_uint32_put Z (msg_type (msg_data msg))] st of
       None \<Rightarrow> Inl (-ENOMEM)
     | Some st \<Rightarrow>
    (case serialize_route Z (msg_route msg) st of
       None \<Rightarrow> Inl (-ENOMEM)
     | Some st \<Rightarrow>
    (case zcbor_tstr_put_lit Z ''data'' st of
       None \<Rightarrow> Inl (-ENOMEM)
     | Some st \<Rightarrow>
    (case serialize_data Z (msg_data msg) of
       None \<Rightarrow> Inl (-EINVAL)
     | Some f \<Rightarrow>
    (case f st of
       None \<Rightarrow> Inl (-ENOMEM)
     | Some st \<Rightarrow>
    (case zcbor_map_end_encode Z 3 st of
       None \<Rightarrow> Inl (-ENOMEM)
     | Some st \<Rightarrow> Inr (zcbor_payload Z st))))))))"

section \<open>Deserialisation\<close>

definition deserialize_route :: "('e, 'd) zcbor_api \<Rightarrow> 'd \<Rightarrow> (ts_route_header \<times> 'd) option" where
  "deserialize_route Z st = do {
     st \<leftarrow> zcbor_tstr_expect_lit Z ''route'' st;
     st \<leftarrow> zcbor_map_start_decode Z st;
     st \<leftarrow> zcbor_tstr_expect_lit Z ''src'' st;
     (src, st) \<leftarrow> zcbor_uint32_decode Z st;
     st \<leftarrow> zcbor_tstr_expect_lit Z ''dst'' st;
     (dst, st) \<leftarrow> zcbor_uint32_decode Z st;
     st \<leftarrow> zcbor_tstr_expect_lit Z ''msg_id'' st;
     (msg_id, st) \<leftarrow> zcbor_uint32_decode Z st;
     st \<leftarrow> zcbor_tstr_expect_lit Z ''ttl'' st;
     (ttl, st) \<leftarrow> zcbor_uint32_decode Z st;
     st \<leftarrow> zcbor_tstr_expect_lit Z ''key_id'' st;
     (key_id, st) \<leftarrow> zcbor_uint32_decode Z st;
     st \<leftarrow> zcbor_map_end_decode Z st;
     Some (\<lparr>rh_src = ucast src, rh_dst = ucast dst, rh_msg_id = msg_id,
            rh_ttl = ucast ttl, rh_key_id = ucast key_id\<rparr>, st)
   }"

definition deserialize_telemetry :: "('e, 'd) zcbor_api \<Rightarrow> 'd \<Rightarrow> (ts_msg_telemetry \<times> 'd) option" where
  "deserialize_telemetry Z st = do {
     st \<leftarrow> zcbor_map_start_decode Z st;
     st \<leftarrow> zcbor_tstr_expect_lit Z ''timestamp'' st;
     (timestamp, st) \<leftarrow> zcbor_uint32_decode Z st;
     st \<leftarrow> zcbor_tstr_expect_lit Z ''temperature'' st;
     (temperature, st) \<leftarrow> zcbor_int32_decode Z st;
     st \<leftarrow> zcbor_tstr_expect_lit Z ''humidity'' st;
     (humidity, st) \<leftarrow> zcbor_uint32_decode Z st;
     st \<leftarrow> zcbor_tstr_expect_lit Z ''pressure'' st;
     (pressure, st) \<leftarrow> zcbor_uint32_decode Z st;
     st \<leftarrow> zcbor_map_end_decode Z st;
     Some (\<lparr>tel_timestamp = timestamp, tel_temperature = temperature,
            tel_humidity = humidity, tel_pressure = pressure\<rparr>, st)
   }"

definition deserialize_node_status :: "('e, 'd) zcbor_api \<Rightarrow> 'd \<Rightarrow> (ts_msg_node_status \<times> 'd) option" where
  "deserialize_node_status Z st = do {
     st \<leftarrow> zcbor_map_start_decode Z st;
     st \<leftarrow> zcbor_tstr_expect_lit Z ''timestamp'' st;
     (timestamp, st) \<leftarrow> zcbor_uint32_decode Z st;
     st \<leftarrow> zcbor_tstr_expect_lit Z ''uptime'' st;
     (uptime, st) \<leftarrow> zcbor_uint32_decode Z st;
     st \<leftarrow> zcbor_tstr_expect_lit Z ''status'' st;
     (status_val, st) \<leftarrow> zcbor_uint32_decode Z st;
     st \<leftarrow> zcbor_map_end_decode Z st;
     Some (\<lparr>ns_timestamp = timestamp, ns_uptime = uptime, ns_status = status_val\<rparr>, st)
   }"

text \<open>
  \<open>memcpy(key, key_str.value, key_str.len); key[key_str.len] = '\0'\<close> on an array with the
  given content.
\<close>

definition copy_key :: "string \<Rightarrow> char list \<Rightarrow> char list" where
  "copy_key key_str key = key_str @ NUL # drop (length key_str + 1) key"

definition deserialize_config_set ::
  "('e, 'd) zcbor_api \<Rightarrow> 'd \<Rightarrow> ts_msg_config_set \<Rightarrow> (ts_msg_config_set \<times> 'd) option" where
  "deserialize_config_set Z st p_cfg = do {
     st \<leftarrow> zcbor_map_start_decode Z st;
     st \<leftarrow> zcbor_tstr_expect_lit Z ''key'' st;
     (key_str, st) \<leftarrow> zcbor_tstr_decode Z st;
     st \<leftarrow> zcbor_tstr_expect_lit Z ''value'' st;
     (value, st) \<leftarrow> zcbor_int32_decode Z st;
     st \<leftarrow> zcbor_map_end_decode Z st;
     if length key_str \<ge> TS_MSG_CONFIG_KEY_MAX then None
     else Some (\<lparr>cs_key = copy_key key_str (cs_key p_cfg), cs_value = value\<rparr>, st)
   }"

definition deserialize_config_ack ::
  "('e, 'd) zcbor_api \<Rightarrow> 'd \<Rightarrow> ts_msg_config_ack \<Rightarrow> (ts_msg_config_ack \<times> 'd) option" where
  "deserialize_config_ack Z st p_ack = do {
     st \<leftarrow> zcbor_map_start_decode Z st;
     st \<leftarrow> zcbor_tstr_expect_lit Z ''key'' st;
     (key_str, st) \<leftarrow> zcbor_tstr_decode Z st;
     st \<leftarrow> zcbor_tstr_expect_lit Z ''value'' st;
     (value, st) \<leftarrow> zcbor_int32_decode Z st;
     st \<leftarrow> zcbor_tstr_expect_lit Z ''result'' st;
     (result, st) \<leftarrow> zcbor_int32_decode Z st;
     st \<leftarrow> zcbor_map_end_decode Z st;
     if length key_str \<ge> TS_MSG_CONFIG_KEY_MAX then None
     else Some (\<lparr>ca_key = copy_key key_str (ca_key p_ack), ca_value = value,
                 ca_result = result\<rparr>, st)
   }"

text \<open>
  The union members the last two write into. The only caller passes a zeroed message, so a
  member that was not active before is all zero.
\<close>

fun as_config_set :: "ts_msg_data \<Rightarrow> ts_msg_config_set" where
  "as_config_set (Config_Set c) = c"
| "as_config_set _ = \<lparr>cs_key = zero_key, cs_value = 0\<rparr>"

fun as_config_ack :: "ts_msg_data \<Rightarrow> ts_msg_config_ack" where
  "as_config_ack (Config_Ack c) = c"
| "as_config_ack _ = \<lparr>ca_key = zero_key, ca_value = 0, ca_result = 0\<rparr>"

definition deserialize_data ::
  "('e, 'd) zcbor_api \<Rightarrow> ts_msg_type_t \<Rightarrow> 'd \<Rightarrow> ts_msg_data \<Rightarrow> int + ts_msg_data \<times> 'd" where
  "deserialize_data Z type st p_data =
    (let bad = (\<lambda>r. case r of None \<Rightarrow> Inl (-EBADMSG) | Some x \<Rightarrow> Inr x) in
     if type = TS_MSG_TELEMETRY then
       bad (map_option (\<lambda>(t, st). (Telemetry t, st)) (deserialize_telemetry Z st))
     else if type = TS_MSG_NODE_STATUS then
       bad (map_option (\<lambda>(n, st). (Node_Status n, st)) (deserialize_node_status Z st))
     else if type = TS_MSG_CONFIG_SET then
       bad (map_option (\<lambda>(c, st). (Config_Set c, st)) (deserialize_config_set Z st (as_config_set p_data)))
     else if type = TS_MSG_CONFIG_ACK then
       bad (map_option (\<lambda>(c, st). (Config_Ack c, st)) (deserialize_config_ack Z st (as_config_ack p_data)))
     else Inl (-EINVAL))"

definition deserialize_envelope :: "('e, 'd) zcbor_api \<Rightarrow> 'd \<Rightarrow> (ts_msg_type_t \<times> 'd) option" where
  "deserialize_envelope Z st = do {
     st \<leftarrow> zcbor_map_start_decode Z st;
     st \<leftarrow> zcbor_tstr_expect_lit Z ''type'' st;
     (type_val, st) \<leftarrow> zcbor_uint32_decode Z st;
     Some (type_val, st)
   }"

definition cbor_deserialize ::
  "('e, 'd) zcbor_api \<Rightarrow> bytes option \<Rightarrow> nat \<Rightarrow> ts_msg_lora_outgoing \<Rightarrow> int + ts_msg_lora_outgoing" where
  "cbor_deserialize Z p_buf buf_len p_msg =
    (if p_buf = None \<or> buf_len = 0 then Inl (-EINVAL)
     else case deserialize_envelope Z (zcbor_new_decode Z 2 (take buf_len (the p_buf)) 1) of
       None \<Rightarrow> Inl (-EBADMSG)
     | Some (type_val, st) \<Rightarrow>
    (case deserialize_route Z st of
       None \<Rightarrow> Inl (-EBADMSG)
     | Some (route, st) \<Rightarrow>
    (case zcbor_tstr_expect_lit Z ''data'' st of
       None \<Rightarrow> Inl (-EBADMSG)
     | Some st \<Rightarrow>
    (case deserialize_data Z type_val st (msg_data p_msg) of
       Inl ret \<Rightarrow> Inl ret
     | Inr (data, st) \<Rightarrow>
    (case zcbor_map_end_decode Z st of
       None \<Rightarrow> Inl (-EBADMSG)
     | Some st \<Rightarrow> Inr \<lparr>msg_route = route, msg_data = data\<rparr>)))))"

section \<open>The reference encoding\<close>

definition route_items :: "ts_route_header \<Rightarrow> cbor_item list" where
  "route_items h =
    [TStr ''route'', MapStart 5,
     TStr ''src'', UInt (ucast (rh_src h)), TStr ''dst'', UInt (ucast (rh_dst h)),
     TStr ''msg_id'', UInt (rh_msg_id h), TStr ''ttl'', UInt (ucast (rh_ttl h)),
     TStr ''key_id'', UInt (ucast (rh_key_id h)), MapEnd 5]"

definition key_string :: "char list \<Rightarrow> string" where
  "key_string a = cstr (take TS_MSG_CONFIG_KEY_MAX a)"

fun data_items :: "ts_msg_data \<Rightarrow> cbor_item list" where
  "data_items (Telemetry t) =
    [MapStart 4, TStr ''timestamp'', UInt (tel_timestamp t),
     TStr ''temperature'', SInt (tel_temperature t), TStr ''humidity'', UInt (tel_humidity t),
     TStr ''pressure'', UInt (tel_pressure t), MapEnd 4]"
| "data_items (Node_Status n) =
    [MapStart 3, TStr ''timestamp'', UInt (ns_timestamp n), TStr ''uptime'', UInt (ns_uptime n),
     TStr ''status'', UInt (ns_status n), MapEnd 3]"
| "data_items (Config_Set c) =
    [MapStart 2, TStr ''key'', TStr (key_string (cs_key c)), TStr ''value'', SInt (cs_value c),
     MapEnd 2]"
| "data_items (Config_Ack c) =
    [MapStart 3, TStr ''key'', TStr (key_string (ca_key c)), TStr ''value'', SInt (ca_value c),
     TStr ''result'', SInt (ca_result c), MapEnd 3]"
| "data_items (Unknown_Type t) = []"

definition envelope_items :: "ts_msg_lora_outgoing \<Rightarrow> cbor_item list" where
  "envelope_items m =
     [MapStart 3, TStr ''type'', UInt (msg_type (msg_data m))] @ route_items (msg_route m) @ [TStr ''data'']"

definition msg_items :: "ts_msg_lora_outgoing \<Rightarrow> cbor_item list" where
  "msg_items m = envelope_items m @ data_items (msg_data m) @ [MapEnd 3]"

definition wire_all :: "(cbor_item \<Rightarrow> bytes) \<Rightarrow> cbor_item list \<Rightarrow> bytes" where
  "wire_all wire its = concat (map wire its)"

lemma wire_all_simps [simp]:
  "wire_all w [] = []"
  "wire_all w (it # its) = w it @ wire_all w its"
  "wire_all w (xs @ ys) = wire_all w xs @ wire_all w ys"
  by (simp_all add: wire_all_def)

section \<open>What the encoder writes\<close>

text \<open>A chain of encoder calls writes the concatenation of their items, or fails.\<close>

lemma puts_item_Nil: "puts_item Z room Some []"
  by (simp add: puts_item_def)

lemma puts_item_seq:
  assumes f: "puts_item Z room f v" and g: "puts_item Z room g w"
  shows "puts_item Z room (\<lambda>e. case f e of None \<Rightarrow> None | Some e' \<Rightarrow> g e') (v @ w)"
  unfolding puts_item_def
proof
  fix e
  show "if length (v @ w) \<le> room e
    then \<exists>e'. (case f e of None \<Rightarrow> None | Some e' \<Rightarrow> g e') = Some e' \<and>
      zcbor_payload Z e' = zcbor_payload Z e @ v @ w \<and> room e' = room e - length (v @ w)
    else (case f e of None \<Rightarrow> None | Some e' \<Rightarrow> g e') = None"
  proof (cases "length v \<le> room e")
    case True
    with f obtain e1 where e1: "f e = Some e1" "zcbor_payload Z e1 = zcbor_payload Z e @ v"
      "room e1 = room e - length v" unfolding puts_item_def by meson
    from g have "if length w \<le> room e1
      then \<exists>e'. g e1 = Some e' \<and> zcbor_payload Z e' = zcbor_payload Z e1 @ w \<and>
        room e' = room e1 - length w
      else g e1 = None" unfolding puts_item_def by blast
    with e1 True show ?thesis by (auto split: if_splits)
  next
    case False
    with f have "f e = None" unfolding puts_item_def by meson
    with False show ?thesis by simp
  qed
qed

lemma puts_all:
  "list_all2 (puts_item Z room) fs ws \<Longrightarrow> puts_item Z room (all_ok fs) (concat ws)"
proof (induction fs ws rule: list_all2_induct)
  case Nil
  have "all_ok [] = (Some :: 'b \<Rightarrow> 'b option)" by (rule ext) simp
  then show ?case by (simp add: puts_item_Nil)
next
  case (Cons f fs w ws)
  have "all_ok (f # fs) = (\<lambda>e. case f e of None \<Rightarrow> None | Some e' \<Rightarrow> all_ok fs e')"
    by (rule ext) simp
  with puts_item_seq [OF Cons.hyps(1) Cons.IH] show ?case by simp
qed

lemma puts_append:
  assumes "puts_item Z room (all_ok fs) v" "puts_item Z room (all_ok gs) w"
  shows "puts_item Z room (all_ok (fs @ gs)) (v @ w)"
proof -
  have "all_ok (fs @ gs) = (\<lambda>e. case all_ok fs e of None \<Rightarrow> None | Some e' \<Rightarrow> all_ok gs e')"
    by (rule ext) simp
  with puts_item_seq [OF assms] show ?thesis by simp
qed

lemma puts_items:
  "list_all2 (\<lambda>f it. puts_item Z room f (wire it)) fs its \<Longrightarrow>
   puts_item Z room (all_ok fs) (wire_all wire its)"
  unfolding wire_all_def by (rule puts_all) (simp add: list.rel_map)

context zcbor
begin

lemmas puts_laws = put_lit put_term put_uint32 put_int32 put_map_start put_map_end

lemma puts_route: "puts_item Z room (serialize_route Z h) (wire_all wire (route_items h))"
  unfolding serialize_route_def route_items_def by (rule puts_items) (simp add: puts_laws)

lemma puts_data:
  "serialize_data Z d = Some f \<Longrightarrow> puts_item Z room f (wire_all wire (data_items d))"
  by (cases d) (auto intro!: puts_items simp: puts_laws key_string_def
      TS_MSG_CONFIG_KEY_MAX_def simp del: wire_all_simps)

lemma serialize_data_known: "known_type d \<Longrightarrow> \<exists>f. serialize_data Z d = Some f"
  by (cases d) auto

lemma puts_envelope:
  "puts_item Z room (all_ok [zcbor_map_start_encode Z 3,
      all_ok [zcbor_tstr_put_lit Z ''type'', zcbor_uint32_put Z (msg_type (msg_data m))],
      serialize_route Z (msg_route m), zcbor_tstr_put_lit Z ''data''])
    (wire_all wire (envelope_items m))"
proof -
  have t: "puts_item Z room (all_ok [zcbor_tstr_put_lit Z ''type'', zcbor_uint32_put Z (msg_type (msg_data m))])
      (wire (TStr ''type'') @ wire (UInt (msg_type (msg_data m))))"
    using puts_all [of Z room _ "[wire (TStr ''type''), wire (UInt (msg_type (msg_data m)))]"]
    by (simp add: puts_laws del: all_ok.simps)
  have "puts_item Z room (all_ok [zcbor_map_start_encode Z 3,
      all_ok [zcbor_tstr_put_lit Z ''type'', zcbor_uint32_put Z (msg_type (msg_data m))],
      serialize_route Z (msg_route m), zcbor_tstr_put_lit Z ''data''])
    (concat [wire (MapStart 3), concat [wire (TStr ''type''), wire (UInt (msg_type (msg_data m)))],
      wire_all wire (route_items (msg_route m)), wire (TStr ''data'')])"
    by (rule puts_all) (simp add: puts_laws puts_route t del: all_ok.simps)
  then show ?thesis by (simp add: envelope_items_def del: all_ok.simps)
qed

text \<open>\<open>cbor_serialize\<close> as one chain.\<close>

lemma serialize_known:
  assumes "serialize_data Z (msg_data m) = Some f"
  shows "cbor_serialize Z m n =
    (case all_ok ([zcbor_map_start_encode Z 3,
        all_ok [zcbor_tstr_put_lit Z ''type'', zcbor_uint32_put Z (msg_type (msg_data m))],
        serialize_route Z (msg_route m), zcbor_tstr_put_lit Z ''data''] @ [f, zcbor_map_end_encode Z 3])
        (zcbor_new_encode Z 0 n) of
       None \<Rightarrow> Inl (-ENOMEM) | Some e \<Rightarrow> Inr (zcbor_payload Z e))"
  using assms by (simp add: cbor_serialize_def split: option.splits)

lemma serialize_exact:
  assumes "known_type (msg_data m)"
  shows "cbor_serialize Z m n =
    (if length (wire_all wire (msg_items m)) \<le> n then Inr (wire_all wire (msg_items m))
     else Inl (-ENOMEM))"
proof -
  from serialize_data_known [OF assms] obtain f where f: "serialize_data Z (msg_data m) = Some f" ..
  have tail: "puts_item Z room (all_ok [f, zcbor_map_end_encode Z 3])
      (concat [wire_all wire (data_items (msg_data m)), wire (MapEnd 3)])"
    by (rule puts_all) (simp add: puts_laws puts_data [OF f])
  have "puts_item Z room (all_ok ([zcbor_map_start_encode Z 3,
        all_ok [zcbor_tstr_put_lit Z ''type'', zcbor_uint32_put Z (msg_type (msg_data m))],
        serialize_route Z (msg_route m), zcbor_tstr_put_lit Z ''data''] @ [f, zcbor_map_end_encode Z 3]))
      (wire_all wire (msg_items m))" (is "puts_item Z room ?F ?w")
    using puts_append [OF puts_envelope [of m] tail]
    by (simp add: msg_items_def del: all_ok.simps)
  then have "if length ?w \<le> n
    then \<exists>e. ?F (zcbor_new_encode Z 0 n) = Some e \<and> zcbor_payload Z e = ?w
    else ?F (zcbor_new_encode Z 0 n) = None"
    using new_encode [of 0 n] unfolding puts_item_def by (metis append_Nil)
  then show ?thesis unfolding serialize_known [OF f] by (auto split: if_splits)
qed

end

section \<open>What the decoder reads\<close>

text \<open>Decoder steps compose: the bytes are concatenated, the container backups threaded.\<close>

lemma reads_done: "x = v \<Longrightarrow> reads_item rest depth (\<lambda>d. Some (x, d)) [] v (\<lambda>_. True) (\<lambda>k. k)"
  by (simp add: reads_item_def)

lemma reads_done_if:
  "\<not> c \<and> x = v \<Longrightarrow>
   reads_item rest depth (\<lambda>d. if c then None else Some (x, d)) [] v (\<lambda>_. True) (\<lambda>k. k)"
  by (simp add: reads_item_def)

lemma reads_bind:
  assumes f: "reads_item rest depth f w v db da" and g: "reads_item rest depth (g v) w' v' db' da'"
  shows "reads_item rest depth (\<lambda>d. Option.bind (f d) (case_prod g)) (w @ w') v'
    (\<lambda>k. db k \<and> db' (da k)) (\<lambda>k. da' (da k))"
  unfolding reads_item_def
proof (intro conjI allI impI)
  fix d r
  assume "(db (depth d) \<and> db' (da (depth d))) \<and> rest d = (w @ w') @ r"
  with f obtain d1 where d1: "f d = Some (v, d1)" "rest d1 = w' @ r" "depth d1 = da (depth d)"
    "db' (depth d1)" unfolding reads_item_def by fastforce
  with g obtain d2 where "g v d1 = Some (v', d2)" "rest d2 = r" "depth d2 = da' (depth d1)"
    unfolding reads_item_def by blast
  with d1 show "\<exists>d'. Option.bind (f d) (case_prod g) = Some (v', d') \<and> rest d' = r \<and>
      depth d' = da' (da (depth d))" by simp
next
  fix d
  assume a: "(db (depth d) \<and> db' (da (depth d))) \<and> strict_prefix (rest d) (w @ w')"
  show "Option.bind (f d) (case_prod g) = None"
  proof (cases "strict_prefix (rest d) w")
    case True
    with f a have "f d = None" unfolding reads_item_def by blast
    then show ?thesis by simp
  next
    case False
    with a obtain p where "rest d = w @ p" "prefix p w'"
      by (auto simp: strict_prefix_def prefix_append)
    with a have p: "rest d = w @ p" "strict_prefix p w'" by (auto simp: strict_prefix_def)
    with f a obtain d1 where d1: "f d = Some (v, d1)" "rest d1 = p" "depth d1 = da (depth d)"
      unfolding reads_item_def by blast
    with g a p have "g v d1 = None" unfolding reads_item_def by auto
    with d1 show ?thesis by simp
  qed
qed

lemma reads_bind_unit:
  assumes "reads_item rest depth (no_value f) w () db da" "reads_item rest depth g w' v' db' da'"
  shows "reads_item rest depth (\<lambda>d. Option.bind (f d) g) (w @ w') v'
    (\<lambda>k. db k \<and> db' (da k)) (\<lambda>k. da' (da k))"
proof -
  have "Option.bind (no_value f d) (\<lambda>(u, d'). g d') = Option.bind (f d) g" for d
    by (cases "f d") (simp_all add: no_value_def)
  then show ?thesis using reads_bind [OF assms(1), of "\<lambda>_. g"] assms(2) by simp
qed

lemma reads_depth:
  assumes "reads_item rest depth f w v db da" "\<And>k. db' k \<Longrightarrow> db k \<and> da k = da' k"
  shows "reads_item rest depth f w v db' da'"
  using assms unfolding reads_item_def by metis

lemmas reads_steps = reads_bind reads_bind_unit reads_done reads_done_if

lemma reads_value:
  assumes "reads_item rest depth f w v db da"
  shows "reads_item rest depth (\<lambda>d. map_option (\<lambda>(x, d). (c x, d)) (f d)) w (c v) db da"
  using assms unfolding reads_item_def by fastforce

lemma reads_itemD:
  assumes "reads_item rest depth f w v db da" "db (depth d)"
  shows "rest d = w @ r \<Longrightarrow> \<exists>d'. f d = Some (v, d') \<and> rest d' = r \<and> depth d' = da (depth d)"
    and "strict_prefix (rest d) w \<Longrightarrow> f d = None"
  using assms unfolding reads_item_def by auto

definition padded_key :: "char list \<Rightarrow> char list" where
  "padded_key a = key_string a @ replicate (TS_MSG_CONFIG_KEY_MAX - length (key_string a)) NUL"

text \<open>The payload a receiver rebuilds: the same, with the unused tail of a key zeroed.\<close>

fun received_data :: "ts_msg_data \<Rightarrow> ts_msg_data" where
  "received_data (Config_Set c) = Config_Set (c\<lparr>cs_key := padded_key (cs_key c)\<rparr>)"
| "received_data (Config_Ack c) = Config_Ack (c\<lparr>ca_key := padded_key (ca_key c)\<rparr>)"
| "received_data d = d"

lemma length_key_string: "wf_key a \<Longrightarrow> length (key_string a) < 32"
  using wf_key_cstr_less [of a] by (simp add: key_string_def wf_key_def TS_MSG_CONFIG_KEY_MAX_def)

lemma copy_key_zero: "wf_key a \<Longrightarrow> copy_key (key_string a) zero_key = padded_key a"
  using length_key_string [of a]
  by (simp add: copy_key_def padded_key_def zero_key_def TS_MSG_CONFIG_KEY_MAX_def
      flip: replicate_Suc Suc_diff_Suc)

lemma widen_narrow [simp]:
  "(ucast (ucast (x :: uint16_t) :: uint32_t) :: uint16_t) = x"
  "(ucast (ucast (y :: uint8_t) :: uint32_t) :: uint8_t) = y"
  by (transfer, simp)+

context zcbor
begin

lemmas reads_laws = get_lit get_tstr get_uint32 get_int32 get_map_start get_map_end

lemma reads_route:
  "reads_item rest depth (deserialize_route Z) (wire_all wire (route_items h)) h
     (\<lambda>k. 0 < k) (\<lambda>k. k)"
  unfolding deserialize_route_def route_items_def wire_all_simps
  by (rule reads_depth, (rule reads_steps reads_laws | simp; fail)+)

lemma reads_telemetry:
  "reads_item rest depth (deserialize_telemetry Z) (wire_all wire (data_items (Telemetry t))) t
     (\<lambda>k. 0 < k) (\<lambda>k. k)"
  unfolding deserialize_telemetry_def data_items.simps wire_all_simps
  by (rule reads_depth, (rule reads_steps reads_laws | simp; fail)+)

lemma reads_node_status:
  "reads_item rest depth (deserialize_node_status Z) (wire_all wire (data_items (Node_Status n))) n
     (\<lambda>k. 0 < k) (\<lambda>k. k)"
  unfolding deserialize_node_status_def data_items.simps wire_all_simps
  by (rule reads_depth, (rule reads_steps reads_laws | simp; fail)+)

lemma reads_config_set:
  assumes "wf_key (cs_key c)" "cs_key p = zero_key"
  shows "reads_item rest depth (\<lambda>d. deserialize_config_set Z d p) (wire_all wire (data_items (Config_Set c)))
    (c\<lparr>cs_key := padded_key (cs_key c)\<rparr>) (\<lambda>k. 0 < k) (\<lambda>k. k)"
  unfolding deserialize_config_set_def data_items.simps wire_all_simps
  using assms length_key_string
  by - (rule reads_depth, (rule reads_steps reads_laws |
        fastforce simp: copy_key_zero TS_MSG_CONFIG_KEY_MAX_def not_le)+)

lemma reads_config_ack:
  assumes "wf_key (ca_key c)" "ca_key p = zero_key"
  shows "reads_item rest depth (\<lambda>d. deserialize_config_ack Z d p) (wire_all wire (data_items (Config_Ack c)))
    (c\<lparr>ca_key := padded_key (ca_key c)\<rparr>) (\<lambda>k. 0 < k) (\<lambda>k. k)"
  unfolding deserialize_config_ack_def data_items.simps wire_all_simps
  using assms length_key_string
  by - (rule reads_depth, (rule reads_steps reads_laws |
        fastforce simp: copy_key_zero TS_MSG_CONFIG_KEY_MAX_def not_le)+)

lemma reads_envelope:
  "reads_item rest depth (deserialize_envelope Z)
    (wire_all wire [MapStart 3, TStr ''type'', UInt t]) t (\<lambda>k. 0 < k) (\<lambda>k. k - 1)"
  unfolding deserialize_envelope_def wire_all_simps
  by (rule reads_depth, (rule reads_steps reads_laws | simp; fail)+)

text \<open>The payload of a known type, read into a zeroed message.\<close>

lemma reads_data:
  assumes "known_type dat" "wf_data dat"
  shows "\<exists>F. (\<forall>d. deserialize_data Z (msg_type dat) d (msg_data zero_msg) =
      (case F d of None \<Rightarrow> Inl (-EBADMSG) | Some x \<Rightarrow> Inr x)) \<and>
    reads_item rest depth F (wire_all wire (data_items dat)) (received_data dat) (\<lambda>k. 0 < k) (\<lambda>k. k)"
proof (cases dat)
  case (Telemetry t)
  then show ?thesis using reads_value [OF reads_telemetry, of Telemetry t]
    by (auto simp: deserialize_data_def Let_def intro!: exI)
next
  case (Node_Status n)
  then show ?thesis using reads_value [OF reads_node_status, of Node_Status n]
    by (auto simp: deserialize_data_def Let_def intro!: exI)
next
  case (Config_Set c)
  with assms have w: "wf_key (cs_key c)" by simp
  from Config_Set show ?thesis
    using reads_value [OF reads_config_set [OF w], of "as_config_set (msg_data zero_msg)" Config_Set]
    by (auto simp: deserialize_data_def Let_def zero_msg_def intro!: exI)
next
  case (Config_Ack c)
  with assms have w: "wf_key (ca_key c)" by simp
  from Config_Ack show ?thesis
    using reads_value [OF reads_config_ack [OF w], of "as_config_ack (msg_data zero_msg)" Config_Ack]
    by (auto simp: deserialize_data_def Let_def zero_msg_def intro!: exI)
next
  case (Unknown_Type t)
  with assms show ?thesis by simp
qed

end

text \<open>\<open>cbor_deserialize\<close> as one sequence; the only error besides \<open>-EBADMSG\<close> is an unknown type.\<close>

definition decode_all :: "('e, 'd) zcbor_api \<Rightarrow> ts_msg_data \<Rightarrow> 'd \<Rightarrow> (ts_msg_lora_outgoing \<times> 'd) option" where
  "decode_all Z p st = do {
     (t, st) \<leftarrow> deserialize_envelope Z st;
     (r, st) \<leftarrow> deserialize_route Z st;
     st \<leftarrow> zcbor_tstr_expect_lit Z ''data'' st;
     (x, st) \<leftarrow> (case deserialize_data Z t st p of Inl _ \<Rightarrow> None | Inr y \<Rightarrow> Some y);
     st \<leftarrow> zcbor_map_end_decode Z st;
     Some (\<lparr>msg_route = r, msg_data = x\<rparr>, st)
   }"

definition unknown_type_read :: "('e, 'd) zcbor_api \<Rightarrow> 'd \<Rightarrow> bool" where
  "unknown_type_read Z st \<longleftrightarrow>
     (case deserialize_envelope Z st of None \<Rightarrow> False | Some (t, _) \<Rightarrow> t \<notin> {0, 1, 2, 3})"

lemma data_error:
  "deserialize_data Z t d p = Inl e \<Longrightarrow> e = (if t \<in> {0, 1, 2, 3} then -EBADMSG else -EINVAL)"
  by (auto simp: deserialize_data_def Let_def split: if_splits option.splits)

lemma deserialize_all:
  assumes "0 < n"
  shows "\<exists>e. cbor_deserialize Z (Some p) n q =
    (case decode_all Z (msg_data q) (zcbor_new_decode Z 2 (take n p) 1) of
       Some (x, _) \<Rightarrow> Inr x | None \<Rightarrow> Inl e) \<and>
    (e = -EBADMSG \<or> e = -EINVAL \<and> unknown_type_read Z (zcbor_new_decode Z 2 (take n p) 1))"
proof -
  let ?d = "zcbor_new_decode Z 2 (take n p) 1"
  show ?thesis
  proof (cases "cbor_deserialize Z (Some p) n q")
    case (Inl e)
    with assms have "decode_all Z (msg_data q) ?d = None \<and>
        (e = -EBADMSG \<or> e = -EINVAL \<and> unknown_type_read Z ?d)"
      by (auto simp: cbor_deserialize_def decode_all_def unknown_type_read_def
          split: option.splits sum.splits prod.splits dest!: data_error)
    with Inl show ?thesis by (intro exI [of _ e]) simp
  next
    case (Inr x)
    with assms have "\<exists>d'. decode_all Z (msg_data q) ?d = Some (x, d')"
      by (auto simp: cbor_deserialize_def decode_all_def
          split: option.splits sum.splits prod.splits)
    with Inr show ?thesis by (intro exI [of _ "-EBADMSG"]) auto
  qed
qed

context zcbor
begin

lemma reads_message:
  assumes "known_type (msg_data m)" "wf_data (msg_data m)"
  shows "reads_item rest depth (decode_all Z (msg_data zero_msg)) (wire_all wire (msg_items m))
    (m\<lparr>msg_data := received_data (msg_data m)\<rparr>) (\<lambda>k. 1 < k) (\<lambda>k. k)"
proof -
  from reads_data [OF assms] obtain F where
    F: "\<And>d. deserialize_data Z (msg_type (msg_data m)) d (msg_data zero_msg) =
        (case F d of None \<Rightarrow> Inl (-EBADMSG) | Some x \<Rightarrow> Inr x)"
    and R: "reads_item rest depth F (wire_all wire (data_items (msg_data m)))
        (received_data (msg_data m)) (\<lambda>k. 0 < k) (\<lambda>k. k)" by blast
  have "(case deserialize_data Z (msg_type (msg_data m)) d (msg_data zero_msg) of
      Inl _ \<Rightarrow> None | Inr y \<Rightarrow> Some y) = F d" for d
    by (simp add: F split: option.splits)
  then have D: "reads_item rest depth
      (\<lambda>d. case deserialize_data Z (msg_type (msg_data m)) d (msg_data zero_msg) of
        Inl _ \<Rightarrow> None | Inr y \<Rightarrow> Some y)
      (wire_all wire (data_items (msg_data m))) (received_data (msg_data m)) (\<lambda>k. 0 < k) (\<lambda>k. k)"
    using R by simp
  have w: "wire_all wire (msg_items m) =
      wire_all wire [MapStart 3, TStr ''type'', UInt (msg_type (msg_data m))] @
      wire_all wire (route_items (msg_route m)) @ wire (TStr ''data'') @
      wire_all wire (data_items (msg_data m)) @ wire (MapEnd 3) @ []"
    by (simp add: msg_items_def envelope_items_def)
  show ?thesis unfolding w decode_all_def
    by (rule reads_depth, (rule reads_steps reads_envelope reads_route D reads_laws | simp; fail)+)
qed

lemma wire_message_nonempty: "wire_all wire (msg_items m) \<noteq> []"
  by (simp add: msg_items_def envelope_items_def wire_nonempty)

lemma decodes_message:
  assumes "known_type (msg_data m)" "wf_data (msg_data m)" "n \<le> length x"
  shows "cbor_deserialize Z (Some (wire_all wire (msg_items m) @ x)) (length (wire_all wire (msg_items m)) + n)
    zero_msg = Inr (m\<lparr>msg_data := received_data (msg_data m)\<rparr>)"
proof -
  let ?w = "wire_all wire (msg_items m)"
  have pos: "0 < length ?w + n" using wire_message_nonempty by simp
  let ?d = "zcbor_new_decode Z 2 (take (length ?w + n) (?w @ x)) 1"
  have d: "rest ?d = ?w @ take n x" "depth ?d = 2" using new_decode by auto
  then have "1 < depth ?d" by simp
  from reads_itemD(1) [OF reads_message [OF assms(1,2)] this d(1)] obtain d' where
    "decode_all Z (msg_data zero_msg) ?d = Some (m\<lparr>msg_data := received_data (msg_data m)\<rparr>, d')"
    by blast
  with deserialize_all [OF pos, of Z "?w @ x" zero_msg] show ?thesis by auto
qed

lemma rejects_truncated:
  assumes "known_type (msg_data m)" "wf_data (msg_data m)"
    and "strict_prefix p (wire_all wire (msg_items m))" "p \<noteq> []"
  shows "cbor_deserialize Z (Some p) (length p) zero_msg = Inl (-EBADMSG)"
proof -
  let ?d = "zcbor_new_decode Z 2 p 1"
  let ?E = "wire_all wire [MapStart 3, TStr ''type'', UInt (msg_type (msg_data m))]"
  have d: "rest ?d = p" "depth ?d = 2" using new_decode by auto
  have none: "decode_all Z (msg_data zero_msg) ?d = None"
    using reads_message [OF assms(1,2)] d assms(3) unfolding reads_item_def by simp
  have "\<not> unknown_type_read Z ?d"
  proof (cases "strict_prefix p ?E")
    case True
    then show ?thesis
      using reads_envelope [of "msg_type (msg_data m)"] d unfolding reads_item_def
      by (simp add: unknown_type_read_def)
  next
    case False
    obtain y where "wire_all wire (msg_items m) = ?E @ y"
      by (simp add: msg_items_def envelope_items_def)
    with assms(3) False obtain r where "p = ?E @ r"
      by (auto simp: strict_prefix_def prefix_append)
    then obtain d' where "deserialize_envelope Z ?d = Some (msg_type (msg_data m), d')"
      using reads_envelope [of "msg_type (msg_data m)"] d unfolding reads_item_def
      by (metis zero_less_numeral)
    with assms(1) show ?thesis by (cases "msg_data m") (simp_all add: unknown_type_read_def)
  qed
  with deserialize_all [of "length p" Z p zero_msg] none assms(4) show ?thesis by auto
qed

end

section \<open>Properties of the codec\<close>

text \<open>A message for the witnesses: set \<open>lora_sf\<close> to 9 on node 5.\<close>

definition sample_key :: "char list" where
  "sample_key = ''lora_sf'' @ replicate 25 NUL"

definition sample_msg :: ts_msg_lora_outgoing where
  "sample_msg =
    \<lparr> msg_route = \<lparr>rh_src = 2, rh_dst = 5, rh_msg_id = 1000, rh_ttl = 5, rh_key_id = 1\<rparr>,
      msg_data = Config_Set \<lparr>cs_key = sample_key, cs_value = 9\<rparr> \<rparr>"

definition sample_bytes :: bytes where
  "sample_bytes =
    [191, 100, 116, 121, 112, 101, 2, 101, 114, 111, 117, 116, 101, 191,
     99, 115, 114, 99, 2, 99, 100, 115, 116, 5, 102, 109, 115, 103, 95,
     105, 100, 25, 3, 232, 99, 116, 116, 108, 5, 102, 107, 101, 121, 95,
     105, 100, 1, 255, 100, 100, 97, 116, 97, 191, 99, 107, 101, 121, 103,
     108, 111, 114, 97, 95, 115, 102, 101, 118, 97, 108, 117, 101, 9, 255, 255]"

lemma sample_key_string: "key_string sample_key = ''lora_sf''"
  by (simp add: sample_key_def key_string_def TS_MSG_CONFIG_KEY_MAX_def cstr_def)

lemma sample_wire: "wire_all ref_wire (msg_items sample_msg) = sample_bytes"
proof -
  have "be_bytes 2 1000 = [3, 232]" by (simp add: numeral_2_eq_2)
  then show ?thesis
    by (simp add: msg_items_def envelope_items_def route_items_def sample_msg_def sample_key_string
        ref_wire_def cbor_head_def char_byte_def sample_bytes_def)
qed

lemma sample_wf: "wf_data (msg_data sample_msg)" "known_type (msg_data sample_msg)"
  by (simp_all add: sample_msg_def sample_key_def wf_key_def TS_MSG_CONFIG_KEY_MAX_def)

lemma sample_serialized: "cbor_serialize ref_zcbor sample_msg 248 = Inr sample_bytes"
  using ref_zcbor.serialize_exact [OF sample_wf(2), of 248] sample_wire by (simp add: sample_bytes_def)

lemma sample_received: "sample_msg\<lparr>msg_data := received_data (msg_data sample_msg)\<rparr> = sample_msg"
  by (simp add: sample_msg_def padded_key_def sample_key_string TS_MSG_CONFIG_KEY_MAX_def)
    (simp add: sample_key_def)

context zcbor
begin

lemma serialize_unknown:
  assumes "\<not> known_type (msg_data m)"
  shows "cbor_serialize Z m n =
    Inl (if length (wire_all wire (envelope_items m)) \<le> n then -EINVAL else -ENOMEM)"
proof -
  have "serialize_data Z (msg_data m) = None" using assms by (cases "msg_data m") auto
  then have "cbor_serialize Z m n =
    (case all_ok [zcbor_map_start_encode Z 3,
        all_ok [zcbor_tstr_put_lit Z ''type'', zcbor_uint32_put Z (msg_type (msg_data m))],
        serialize_route Z (msg_route m), zcbor_tstr_put_lit Z ''data'']
        (zcbor_new_encode Z 0 n) of
       None \<Rightarrow> Inl (-ENOMEM) | Some e \<Rightarrow> Inl (-EINVAL))"
    by (simp add: cbor_serialize_def split: option.splits)
  with puts_envelope [of m] new_encode [of 0 n] show ?thesis
    unfolding puts_item_def by (smt (verit, best) option.case option.simps(5))
qed

lemma serialize_InrD:
  assumes "cbor_serialize Z m n = Inr bs"
  shows "known_type (msg_data m)" "bs = wire_all wire (msg_items m)"
proof -
  show known: "known_type (msg_data m)" using serialize_unknown [of m n] assms by auto
  show "bs = wire_all wire (msg_items m)"
    using serialize_exact [OF known, of n] assms by (simp split: if_splits)
qed

lemma serialize_nonempty: "cbor_serialize Z m n = Inr bs \<Longrightarrow> bs \<noteq> []"
  using serialize_InrD(2) [of m n bs] wire_message_nonempty [of m] by simp

lemma roundtrip:
  assumes "wf_data (msg_data m)" "cbor_serialize Z m n = Inr bs" "k \<le> length x"
  shows "cbor_deserialize Z (Some (bs @ x)) (length bs + k) zero_msg =
    Inr (m\<lparr>msg_data := received_data (msg_data m)\<rparr>)"
  using decodes_message [OF serialize_InrD(1) [OF assms(2)] assms(1,3)] serialize_InrD(2) [OF assms(2)]
  by simp

end

text \<open>The encoded size of an item, at most.\<close>

fun item_bound :: "cbor_item \<Rightarrow> nat" where
  "item_bound (TStr s) = length s + (if length s < 24 then 1 else 2)"
| "item_bound (UInt v) = 5"
| "item_bound (SInt i) = 5"
| "item_bound (MapStart n) = 1"
| "item_bound (MapEnd n) = 1"

fun small_item :: "cbor_item \<Rightarrow> bool" where
  "small_item (TStr s) = (length s < 256)"
| "small_item (MapStart n) = (n < 24)"
| "small_item _ = True"

context zcbor_sized
begin

lemma size_item: "small_item it \<Longrightarrow> length (wire it) \<le> item_bound it"
  using size_uint size_sint size_tstr size_map_start size_map_end by (cases it) auto

lemma size_items:
  "list_all small_item its \<Longrightarrow> length (wire_all wire its) \<le> sum_list (map item_bound its)"
  by (induction its) (auto dest: size_item intro: add_mono)

lemma size_message:
  assumes "wf_data (msg_data m)"
  shows "length (wire_all wire (msg_items m)) \<le> 138"
proof -
  have env: "length (wire_all wire (envelope_items m)) \<le> 75"
    by (rule order.trans [OF size_items])
      (simp_all add: envelope_items_def route_items_def)
  have "length (wire_all wire (data_items (msg_data m))) \<le> 62"
  proof (cases "msg_data m")
    case (Config_Set c)
    with assms length_key_string [of "cs_key c"] show ?thesis
      by (intro order.trans [OF size_items]) simp_all
  next
    case (Config_Ack c)
    with assms length_key_string [of "ca_key c"] show ?thesis
      by (intro order.trans [OF size_items]) simp_all
  next
    case (Telemetry t)
    then show ?thesis by (intro order.trans [OF size_items]) simp_all
  next
    case (Node_Status n)
    then show ?thesis by (intro order.trans [OF size_items]) simp_all
  qed simp
  with env size_map_end [of 3] show ?thesis by (simp add: msg_items_def)
qed

end

text \<open>(C27) Encoding is exact: a message of a known type is written as its reference encoding when
  that fits into the buffer, and otherwise \<open>-ENOMEM\<close> is returned; a type outside the
  enumeration gives \<open>-EINVAL\<close> (or \<open>-ENOMEM\<close> if not even the part before the payload fits).\<close>

theorem cbor_serialize_exact:
  assumes "zcbor Z wire room rest depth"
  shows "cbor_serialize Z m n =
    (if known_type (msg_data m) then
       (if length (wire_all wire (msg_items m)) \<le> n then Inr (wire_all wire (msg_items m))
        else Inl (-ENOMEM))
     else Inl (if length (wire_all wire (envelope_items m)) \<le> n then -EINVAL else -ENOMEM))"
  using zcbor.serialize_exact [OF assms, of m n] zcbor.serialize_unknown [OF assms, of m n] by simp

theorem cbor_serialize_exact_witness:
  "cbor_serialize ref_zcbor sample_msg 10 = Inl (-ENOMEM) \<and>
   wire_all ref_wire (msg_items sample_msg) = sample_bytes"
proof
  show "wire_all ref_wire (msg_items sample_msg) = sample_bytes" by (rule sample_wire)
  from cbor_serialize_exact [OF ref_zcbor.zcbor_axioms, of sample_msg 10] sample_wire sample_wf
  show "cbor_serialize ref_zcbor sample_msg 10 = Inl (-ENOMEM)" by (simp add: sample_bytes_def)
qed

text \<open>(C16) Round trip: whatever the encoder writes, the decoder reads back as the same message,
  field by field (config keys up to the unused bytes after their terminator, which arrive
  zeroed), and bytes after the message are ignored.\<close>

theorem cbor_roundtrip:
  assumes "zcbor Z wire room rest depth" "wf_data (msg_data m)"
    and "cbor_serialize Z m n = Inr bs" "k \<le> length x"
  shows "cbor_deserialize Z (Some (bs @ x)) (length bs + k) zero_msg =
    Inr (m\<lparr>msg_data := received_data (msg_data m)\<rparr>)"
  by (rule zcbor.roundtrip [OF assms])

theorem cbor_roundtrip_witness:
  "cbor_deserialize ref_zcbor (Some (sample_bytes @ [17])) (length sample_bytes + 1) zero_msg =
     Inr sample_msg"
  using cbor_roundtrip [OF ref_zcbor.zcbor_axioms sample_wf(1) sample_serialized, of 1 "[17]"]
  by (simp add: sample_received)

text \<open>(C28) No truncated message is accepted: every proper non-empty prefix of an encoded message
  is refused with \<open>-EBADMSG\<close>.\<close>

theorem cbor_rejects_truncation:
  assumes "zcbor Z wire room rest depth" "wf_data (msg_data m)"
    and "cbor_serialize Z m n = Inr bs" "strict_prefix p bs" "p \<noteq> []"
  shows "cbor_deserialize Z (Some p) (length p) zero_msg = Inl (-EBADMSG)"
  using zcbor.rejects_truncated [OF assms(1) zcbor.serialize_InrD(1) [OF assms(1,3)] assms(2)]
    zcbor.serialize_InrD(2) [OF assms(1,3)] assms(4,5) by simp

theorem cbor_rejects_truncation_witness:
  "cbor_deserialize ref_zcbor (Some [191, 100, 116]) 3 zero_msg = Inl (-EBADMSG)"
proof -
  have "strict_prefix [191, 100, 116] sample_bytes" by (simp add: sample_bytes_def strict_prefix_def)
  from cbor_rejects_truncation [OF ref_zcbor.zcbor_axioms sample_wf(1) sample_serialized this]
  show ?thesis by (simp add: eval_nat_numeral)
qed

text \<open>What the decoder accepts, whatever the bytes are and whatever zcbor makes of them.\<close>

lemma copy_key_wf:
  assumes "length s < TS_MSG_CONFIG_KEY_MAX" "wf_key a"
  shows "wf_key (copy_key s a)"
  using assms by (auto simp: wf_key_def copy_key_def)

lemma decoded_config_wf:
  "deserialize_config_set Z st c0 = Some (c, st') \<Longrightarrow> wf_key (cs_key c0) \<Longrightarrow> wf_key (cs_key c)"
  "deserialize_config_ack Z st a0 = Some (a, st'') \<Longrightarrow> wf_key (ca_key a0) \<Longrightarrow> wf_key (ca_key a)"
  by (auto simp: deserialize_config_set_def deserialize_config_ack_def bind_eq_Some_conv copy_key_wf
      split: if_splits)

lemma as_config_wf:
  "wf_data d \<Longrightarrow> wf_key (cs_key (as_config_set d))" "wf_data d \<Longrightarrow> wf_key (ca_key (as_config_ack d))"
  by (cases d; simp)+

lemma decoded_data_wf:
  assumes "deserialize_data Z t st d0 = Inr (d, st')" "wf_data d0"
  shows "wf_data d \<and> known_type d \<and> msg_type d = t"
  using assms as_config_wf [OF assms(2)] 
  by (auto simp: deserialize_data_def Let_def decoded_config_wf split: if_splits option.splits)

lemma decoded_wf:
  assumes "cbor_deserialize Z p_buf n p_msg = Inr m" "wf_data (msg_data p_msg)"
  shows "wf_data (msg_data m) \<and> known_type (msg_data m)"
  using assms decoded_data_wf [of Z _ _ "msg_data p_msg", OF _ assms(2)]
  by (fastforce simp: cbor_deserialize_def split: if_splits option.splits sum.splits prod.splits)

text \<open>(C17) Whatever bytes arrive, and however zcbor reads them, a message the decoder accepts is
  well-formed: its payload is of one of the four known types, and the key of a configuration
  message is a terminated string inside its array of 32 bytes, so the copy of the key never
  writes beyond the array.\<close>

theorem cbor_accepts_only_well_formed:
  assumes "cbor_deserialize Z p_buf buf_len p_msg = Inr m" "wf_data (msg_data p_msg)"
  shows "known_type (msg_data m) \<and> wf_data (msg_data m) \<and>
    (\<forall>c. msg_data m = Config_Set c \<longrightarrow> length (cs_key c) = TS_MSG_CONFIG_KEY_MAX \<and>
       length (cstr (cs_key c)) < TS_MSG_CONFIG_KEY_MAX) \<and>
    (\<forall>c. msg_data m = Config_Ack c \<longrightarrow> length (ca_key c) = TS_MSG_CONFIG_KEY_MAX \<and>
       length (cstr (ca_key c)) < TS_MSG_CONFIG_KEY_MAX)"
  using decoded_wf [OF assms] wf_key_cstr_less by (auto simp: wf_key_def)

theorem cbor_accepts_only_well_formed_witness:
  "\<exists>m. cbor_deserialize ref_zcbor (Some sample_bytes) (length sample_bytes) zero_msg = Inr m \<and>
     known_type (msg_data m) \<and> wf_data (msg_data m)"
proof -
  have "cbor_deserialize ref_zcbor (Some sample_bytes) (length sample_bytes) zero_msg = Inr sample_msg"
    using ref_zcbor.roundtrip [OF sample_wf(1) sample_serialized, of 0 "[]"] by (simp add: sample_received)
  with cbor_accepts_only_well_formed [OF this] show ?thesis by (simp add: zero_msg_def)
qed

end
