(* ===== verification/Config.thy ===== *)
theory Config
  imports Platform_Reference
begin

text \<open>
  Runtime configuration: \<open>src/config/config.h\<close> and \<open>src/config/config.c\<close>, built with
  \<open>CONFIG_SETTINGS\<close>. \<open>live_config\<close> is the memory of a \<open>struct ts_config\<close> (the code writes it
  through byte offsets), \<open>config_view\<close> reads it as the struct. The struct layout
  (\<open>offsetof\<close>) is computed from the field sizes with natural alignment, little-endian, as
  on all supported boards. The theorems show that the offset table addresses exactly the
  named field, that validation guards every write and keeps all fields in range, which
  errors leave the configuration alone, and what survives a restart.
\<close>

section \<open>The structure and its layout\<close>

record ts_config =
  routing_ttl :: uint8_t
  contention_delay_min_ms :: uint32_t
  contention_delay_max_ms :: uint32_t
  contention_rssi_weak :: int16_t
  contention_rssi_strong :: int16_t
  routing_table_stale_timeout_s :: uint32_t
  node_id :: uint16_t
  lora_frequency :: uint32_t
  lora_sf :: uint8_t
  lora_bw :: uint16_t
  lora_cr :: uint8_t
  lora_tx_power :: int8_t
  sensor_interval_s :: uint32_t
  heartbeat_interval_s :: uint32_t
  routing_table_age_interval_s :: uint32_t

definition TS_CONFIG_DEFAULTS :: ts_config where
  "TS_CONFIG_DEFAULTS =
    \<lparr> routing_ttl = 5,
      contention_delay_min_ms = 0,
      contention_delay_max_ms = 5000,
      contention_rssi_weak = -120,
      contention_rssi_strong = -30,
      routing_table_stale_timeout_s = 300,
      node_id = 0x0001,
      lora_frequency = 865100000,
      lora_sf = 10,
      lora_bw = 125,
      lora_cr = 1,
      lora_tx_power = 4,
      sensor_interval_s = 10,
      heartbeat_interval_s = 7,
      routing_table_age_interval_s = 60 \<rparr>"

text \<open>Field names and sizes in declaration order.\<close>

definition config_fields :: "(string \<times> nat) list" where
  "config_fields =
    [(''routing_ttl'', 1),
     (''contention_delay_min_ms'', 4), (''contention_delay_max_ms'', 4),
     (''contention_rssi_weak'', 2), (''contention_rssi_strong'', 2),
     (''routing_table_stale_timeout_s'', 4),
     (''node_id'', 2),
     (''lora_frequency'', 4), (''lora_sf'', 1), (''lora_bw'', 2), (''lora_cr'', 1),
     (''lora_tx_power'', 1),
     (''sensor_interval_s'', 4), (''heartbeat_interval_s'', 4),
     (''routing_table_age_interval_s'', 4)]"

fun layout_from :: "nat \<Rightarrow> (string \<times> nat) list \<Rightarrow> (string \<times> nat) list" where
  "layout_from off [] = []"
| "layout_from off ((f, sz) # fs) =
     (let o' = (off + sz - 1) div sz * sz in (f, o') # layout_from (o' + sz) fs)"

definition offsetof :: "string \<Rightarrow> nat" where
  "offsetof f = the (map_of (layout_from 0 config_fields) f)"

definition sizeof :: "string \<Rightarrow> nat" where
  "sizeof f = the (map_of config_fields f)"

fun layout_end :: "nat \<Rightarrow> (string \<times> nat) list \<Rightarrow> nat" where
  "layout_end off [] = off"
| "layout_end off ((f, sz) # fs) = layout_end ((off + sz - 1) div sz * sz + sz) fs"

text \<open>The struct is as aligned as its widest members, four bytes.\<close>

definition sizeof_ts_config :: nat where
  "sizeof_ts_config = (layout_end 0 config_fields + 3) div 4 * 4"

definition load_field :: "string \<Rightarrow> bytes \<Rightarrow> int" where
  "load_field f mem = le_val (slice (offsetof f) (sizeof f) mem)"

definition config_view :: "bytes \<Rightarrow> ts_config" where
  "config_view mem =
    \<lparr> routing_ttl = word_of_int (load_field ''routing_ttl'' mem),
      contention_delay_min_ms = word_of_int (load_field ''contention_delay_min_ms'' mem),
      contention_delay_max_ms = word_of_int (load_field ''contention_delay_max_ms'' mem),
      contention_rssi_weak = word_of_int (load_field ''contention_rssi_weak'' mem),
      contention_rssi_strong = word_of_int (load_field ''contention_rssi_strong'' mem),
      routing_table_stale_timeout_s = word_of_int (load_field ''routing_table_stale_timeout_s'' mem),
      node_id = word_of_int (load_field ''node_id'' mem),
      lora_frequency = word_of_int (load_field ''lora_frequency'' mem),
      lora_sf = word_of_int (load_field ''lora_sf'' mem),
      lora_bw = word_of_int (load_field ''lora_bw'' mem),
      lora_cr = word_of_int (load_field ''lora_cr'' mem),
      lora_tx_power = word_of_int (load_field ''lora_tx_power'' mem),
      sensor_interval_s = word_of_int (load_field ''sensor_interval_s'' mem),
      heartbeat_interval_s = word_of_int (load_field ''heartbeat_interval_s'' mem),
      routing_table_age_interval_s = word_of_int (load_field ''routing_table_age_interval_s'' mem) \<rparr>"

text \<open>
  The memory image a struct assignment leaves: the fields in order, with zero bytes where
  the alignment leaves holes.
\<close>

definition config_image :: "ts_config \<Rightarrow> bytes" where
  "config_image c =
     le_bytes 1 (uint (routing_ttl c)) @ [0, 0, 0] @
     le_bytes 4 (uint (contention_delay_min_ms c)) @
     le_bytes 4 (uint (contention_delay_max_ms c)) @
     le_bytes 2 (uint (contention_rssi_weak c)) @
     le_bytes 2 (uint (contention_rssi_strong c)) @
     le_bytes 4 (uint (routing_table_stale_timeout_s c)) @
     le_bytes 2 (uint (node_id c)) @ [0, 0] @
     le_bytes 4 (uint (lora_frequency c)) @
     le_bytes 1 (uint (lora_sf c)) @ [0] @
     le_bytes 2 (uint (lora_bw c)) @
     le_bytes 1 (uint (lora_cr c)) @
     le_bytes 1 (uint (lora_tx_power c)) @ [0, 0] @
     le_bytes 4 (uint (sensor_interval_s c)) @
     le_bytes 4 (uint (heartbeat_interval_s c)) @
     le_bytes 4 (uint (routing_table_age_interval_s c))"

section \<open>The key table\<close>

record ts_config_key =
  ck_name :: string
  ck_offset :: nat
  ck_size :: nat
  ck_min :: int
  ck_max :: int

definition CONFIG_KEY :: "string \<Rightarrow> int \<Rightarrow> int \<Rightarrow> ts_config_key" where
  "CONFIG_KEY field lo hi =
    \<lparr> ck_name = field, ck_offset = offsetof field, ck_size = sizeof field,
      ck_min = lo, ck_max = hi \<rparr>"

definition config_keys :: "ts_config_key list" where
  "config_keys =
    [CONFIG_KEY ''routing_ttl'' 1 255,
     CONFIG_KEY ''contention_delay_min_ms'' 0 60000,
     CONFIG_KEY ''contention_delay_max_ms'' 0 60000,
     CONFIG_KEY ''contention_rssi_weak'' (-150) 0,
     CONFIG_KEY ''contention_rssi_strong'' (-150) 0,
     CONFIG_KEY ''routing_table_stale_timeout_s'' 1 86400,
     CONFIG_KEY ''node_id'' 0 0xFFFF,
     CONFIG_KEY ''lora_frequency'' 150000000 960000000,
     CONFIG_KEY ''lora_sf'' 5 12,
     CONFIG_KEY ''lora_bw'' 7 1600,
     CONFIG_KEY ''lora_cr'' 1 4,
     CONFIG_KEY ''lora_tx_power'' (-9) 22,
     CONFIG_KEY ''sensor_interval_s'' 1 86400,
     CONFIG_KEY ''heartbeat_interval_s'' 1 86400,
     CONFIG_KEY ''routing_table_age_interval_s'' 1 86400]"

definition find_key :: "string \<Rightarrow> ts_config_key option" where
  "find_key name =
     map_option (\<lambda>i. config_keys ! i) (first_index (\<lambda>k. ck_name k = name) config_keys)"

definition write_field :: "ts_config_key \<Rightarrow> int32_t \<Rightarrow> bytes \<Rightarrow> bytes" where
  "write_field p_key value mem =
    (if ck_size p_key = 1 then
       (if ck_min p_key < 0
        then splice (ck_offset p_key) (le_bytes 1 (sint (ucast value :: int8_t))) mem
        else splice (ck_offset p_key) (le_bytes 1 (uint (ucast value :: uint8_t))) mem)
     else if ck_size p_key = 2 then
       (if ck_min p_key < 0
        then splice (ck_offset p_key) (le_bytes 2 (sint (ucast value :: int16_t))) mem
        else splice (ck_offset p_key) (le_bytes 2 (uint (ucast value :: uint16_t))) mem)
     else if ck_size p_key = 4 then
       splice (ck_offset p_key) (le_bytes 4 (uint value)) mem
     else mem)"

section \<open>Operations\<close>

record 'n config_state =
  live_config :: bytes
  nvs :: 'n

text \<open>\<open>snprintf(full_name, sizeof(full_name), "ts/%s", name)\<close> with a 32-byte buffer.\<close>

definition full_name :: "string \<Rightarrow> string" where
  "full_name name = take (32 - 1) (''ts/'' @ name)"

definition config_settings_set :: "settings_item \<Rightarrow> bytes \<Rightarrow> int \<times> bytes" where
  "config_settings_set it mem =
    (case find_key (si_key it) of
       None \<Rightarrow> (-ENOENT, mem)
     | Some entry \<Rightarrow>
         (if si_len it \<noteq> ck_size entry then (-EINVAL, mem)
          else case si_read it (ck_size entry) of (rc, bs) \<Rightarrow>
            let mem' = splice (ck_offset entry) (take (ck_size entry) bs) mem
            in if rc < 0 then (rc, mem') else (0, mem')))"

fun config_settings_export ::
  "(string \<Rightarrow> bytes \<Rightarrow> 'x \<Rightarrow> int \<times> 'x) \<Rightarrow> bytes \<Rightarrow> ts_config_key list \<Rightarrow> 'x \<Rightarrow> int \<times> 'x" where
  "config_settings_export export_func mem [] x = (0, x)"
| "config_settings_export export_func mem (k # ks) x =
     (case export_func (full_name (ck_name k)) (slice (ck_offset k) (ck_size k) mem) x of
        (ret, x') \<Rightarrow> if ret \<noteq> 0 then (ret, x')
                    else config_settings_export export_func mem ks x')"

text \<open>
  \<open>settings_load\<close> calls the handler for every stored key; it ignores what the handler
  returns.
\<close>

definition load_items :: "settings_item list \<Rightarrow> bytes \<Rightarrow> bytes" where
  "load_items its mem = foldl (\<lambda>m it. snd (config_settings_set it m)) mem its"

definition ts_config_init :: "'n settings_api \<Rightarrow> 'n config_state \<Rightarrow> int \<times> 'n config_state" where
  "ts_config_init S st =
    (let st = st\<lparr>live_config := config_image TS_CONFIG_DEFAULTS\<rparr> in
     case settings_subsys_init S (nvs st) of (ret, n) \<Rightarrow>
       let st = st\<lparr>nvs := n\<rparr> in
       if ret \<noteq> 0 then (ret, st)
       else case settings_load S (nvs st) of (ret, its) \<Rightarrow>
         let st = st\<lparr>live_config := load_items its (live_config st)\<rparr> in
         if ret \<noteq> 0 then (ret, st) else (0, st))"

definition ts_config_get :: "'n config_state \<Rightarrow> ts_config" where
  "ts_config_get st = config_view (live_config st)"

text \<open>The key without the optional prefix: \<open>if (strncmp(field, "ts/", 3) == 0) field += 3\<close>.\<close>

definition config_field_name :: "string \<Rightarrow> string" where
  "config_field_name p_key = (if take 3 p_key = ''ts/'' then drop 3 p_key else p_key)"

definition ts_config_set ::
  "'n settings_api \<Rightarrow> string \<Rightarrow> int32_t \<Rightarrow> 'n config_state \<Rightarrow> int \<times> 'n config_state" where
  "ts_config_set S p_key value st =
    (case find_key (config_field_name p_key) of
       None \<Rightarrow> (-ENOENT, st)
     | Some entry \<Rightarrow>
         (if sint value < ck_min entry \<or> sint value > ck_max entry then (-EINVAL, st)
          else let st = st\<lparr>live_config := write_field entry value (live_config st)\<rparr> in
               case settings_save_one S (full_name (ck_name entry))
                      (slice (ck_offset entry) (ck_size entry) (live_config st)) (nvs st) of
                 (ret, n) \<Rightarrow> let st = st\<lparr>nvs := n\<rparr> in
                   if ret \<noteq> 0 then (ret, st) else (0, st)))"

definition ts_config_reset :: "'n settings_api \<Rightarrow> 'n config_state \<Rightarrow> int \<times> 'n config_state" where
  "ts_config_reset S st =
    (let n = foldl (\<lambda>n k. snd (settings_delete S (full_name (ck_name k)) n)) (nvs st) config_keys
     in (0, st\<lparr>nvs := n, live_config := config_image TS_CONFIG_DEFAULTS\<rparr>))"

section \<open>Layout facts\<close>

lemma word_of_int_mod [mem_simps]:
  "(word_of_int (x mod 256) :: 8 word) = word_of_int x"
  "(word_of_int (x mod 65536) :: 16 word) = word_of_int x"
  "(word_of_int (x mod 4294967296) :: 32 word) = word_of_int x"
  by (transfer, simp add: take_bit_eq_mod)+

lemma config_layout:
  "layout_from 0 config_fields =
    [(''routing_ttl'', 0),
     (''contention_delay_min_ms'', 4), (''contention_delay_max_ms'', 8),
     (''contention_rssi_weak'', 12), (''contention_rssi_strong'', 14),
     (''routing_table_stale_timeout_s'', 16),
     (''node_id'', 20),
     (''lora_frequency'', 24), (''lora_sf'', 28), (''lora_bw'', 30), (''lora_cr'', 32),
     (''lora_tx_power'', 33),
     (''sensor_interval_s'', 36), (''heartbeat_interval_s'', 40),
     (''routing_table_age_interval_s'', 44)]"
  by code_simp

lemma offsetof_simps [simp]:
  "offsetof ''routing_ttl'' = 0"
  "offsetof ''contention_delay_min_ms'' = 4"
  "offsetof ''contention_delay_max_ms'' = 8"
  "offsetof ''contention_rssi_weak'' = 12"
  "offsetof ''contention_rssi_strong'' = 14"
  "offsetof ''routing_table_stale_timeout_s'' = 16"
  "offsetof ''node_id'' = 20"
  "offsetof ''lora_frequency'' = 24"
  "offsetof ''lora_sf'' = 28"
  "offsetof ''lora_bw'' = 30"
  "offsetof ''lora_cr'' = 32"
  "offsetof ''lora_tx_power'' = 33"
  "offsetof ''sensor_interval_s'' = 36"
  "offsetof ''heartbeat_interval_s'' = 40"
  "offsetof ''routing_table_age_interval_s'' = 44"
  by (simp_all add: offsetof_def config_layout)

lemma sizeof_simps [simp]:
  "sizeof ''routing_ttl'' = 1"
  "sizeof ''contention_delay_min_ms'' = 4"
  "sizeof ''contention_delay_max_ms'' = 4"
  "sizeof ''contention_rssi_weak'' = 2"
  "sizeof ''contention_rssi_strong'' = 2"
  "sizeof ''routing_table_stale_timeout_s'' = 4"
  "sizeof ''node_id'' = 2"
  "sizeof ''lora_frequency'' = 4"
  "sizeof ''lora_sf'' = 1"
  "sizeof ''lora_bw'' = 2"
  "sizeof ''lora_cr'' = 1"
  "sizeof ''lora_tx_power'' = 1"
  "sizeof ''sensor_interval_s'' = 4"
  "sizeof ''heartbeat_interval_s'' = 4"
  "sizeof ''routing_table_age_interval_s'' = 4"
  by (simp_all add: sizeof_def config_fields_def)

lemma sizeof_ts_config_48 [simp]: "sizeof_ts_config = 48"
  by (simp add: sizeof_ts_config_def config_fields_def)

lemma find_key_mem: "find_key f = Some k \<Longrightarrow> k \<in> set config_keys \<and> ck_name k = f"
  by (auto simp: find_key_def dest: first_index_SomeD)

text \<open>The table's ranges lie inside the struct, and different keys address disjoint bytes.\<close>

lemma config_keys_distinct: "distinct (map ck_name config_keys)"
  by (simp add: config_keys_def CONFIG_KEY_def)

lemma config_key_inside:
  "k \<in> set config_keys \<Longrightarrow> ck_offset k + ck_size k \<le> 48 \<and> ck_size k \<in> {1, 2, 4}"
  by (auto simp: config_keys_def CONFIG_KEY_def)

lemma config_keys_disjoint:
  assumes "k \<in> set config_keys" "k' \<in> set config_keys" "ck_name k \<noteq> ck_name k'"
  shows "ck_offset k + ck_size k \<le> ck_offset k' \<or> ck_offset k' + ck_size k' \<le> ck_offset k"
proof -
  have "list_all (\<lambda>k. list_all (\<lambda>k'. ck_name k = ck_name k' \<or>
      ck_offset k + ck_size k \<le> ck_offset k' \<or> ck_offset k' + ck_size k' \<le> ck_offset k)
      config_keys) config_keys"
    by (simp add: config_keys_def CONFIG_KEY_def)
  with assms show ?thesis by (auto simp: list_all_iff)
qed

lemma find_key_of_name: "k \<in> set config_keys \<Longrightarrow> find_key (ck_name k) = Some k"
proof -
  assume "k \<in> set config_keys"
  then obtain i where i: "i < length config_keys" "config_keys ! i = k"
    by (auto simp: in_set_conv_nth)
  have "first_index (\<lambda>x. ck_name x = ck_name k) config_keys = Some i"
    by (rule first_index_unique)
      (use i config_keys_distinct in \<open>auto simp: distinct_conv_nth\<close>)
  with i show ?thesis by (simp add: find_key_def)
qed

section \<open>Reading and writing single fields\<close>

text \<open>
  The abstract view: the number a field holds, with the signedness of its C type, and the
  assignment of a 32-bit value to a named field.
\<close>

definition field_val :: "string \<Rightarrow> ts_config \<Rightarrow> int" where
  "field_val f c = the (map_of
    [(''routing_ttl'', uint (routing_ttl c)),
     (''contention_delay_min_ms'', uint (contention_delay_min_ms c)),
     (''contention_delay_max_ms'', uint (contention_delay_max_ms c)),
     (''contention_rssi_weak'', sint (contention_rssi_weak c)),
     (''contention_rssi_strong'', sint (contention_rssi_strong c)),
     (''routing_table_stale_timeout_s'', uint (routing_table_stale_timeout_s c)),
     (''node_id'', uint (node_id c)),
     (''lora_frequency'', uint (lora_frequency c)),
     (''lora_sf'', uint (lora_sf c)),
     (''lora_bw'', uint (lora_bw c)),
     (''lora_cr'', uint (lora_cr c)),
     (''lora_tx_power'', sint (lora_tx_power c)),
     (''sensor_interval_s'', uint (sensor_interval_s c)),
     (''heartbeat_interval_s'', uint (heartbeat_interval_s c)),
     (''routing_table_age_interval_s'', uint (routing_table_age_interval_s c))] f)"

definition config_in_range :: "ts_config \<Rightarrow> bool" where
  "config_in_range c \<longleftrightarrow>
     (\<forall>k \<in> set config_keys. ck_min k \<le> field_val (ck_name k) c \<and> field_val (ck_name k) c \<le> ck_max k)"

lemma length_write_field [simp]:
  "k \<in> set config_keys \<Longrightarrow> length mem = 48 \<Longrightarrow> length (write_field k v mem) = 48"
  using config_key_inside [of k] by (auto simp: write_field_def)

lemma field_val_simps [simp]:
  "field_val ''routing_ttl'' c = uint (routing_ttl c)"
  "field_val ''contention_delay_min_ms'' c = uint (contention_delay_min_ms c)"
  "field_val ''contention_delay_max_ms'' c = uint (contention_delay_max_ms c)"
  "field_val ''contention_rssi_weak'' c = sint (contention_rssi_weak c)"
  "field_val ''contention_rssi_strong'' c = sint (contention_rssi_strong c)"
  "field_val ''routing_table_stale_timeout_s'' c = uint (routing_table_stale_timeout_s c)"
  "field_val ''node_id'' c = uint (node_id c)"
  "field_val ''lora_frequency'' c = uint (lora_frequency c)"
  "field_val ''lora_sf'' c = uint (lora_sf c)"
  "field_val ''lora_bw'' c = uint (lora_bw c)"
  "field_val ''lora_cr'' c = uint (lora_cr c)"
  "field_val ''lora_tx_power'' c = sint (lora_tx_power c)"
  "field_val ''sensor_interval_s'' c = uint (sensor_interval_s c)"
  "field_val ''heartbeat_interval_s'' c = uint (heartbeat_interval_s c)"
  "field_val ''routing_table_age_interval_s'' c = uint (routing_table_age_interval_s c)"
  by (simp_all add: field_val_def)

text \<open>Every field of the struct has a key, so the keys' values determine the struct.\<close>

lemma config_eqI:
  assumes "\<And>k. k \<in> set config_keys \<Longrightarrow> field_val (ck_name k) c = field_val (ck_name k) c'"
  shows "c = (c' :: ts_config)"
proof -
  have "list_all (\<lambda>k. field_val (ck_name k) c = field_val (ck_name k) c') config_keys"
    using assms by (simp add: list_all_iff)
  then show ?thesis
    by (intro ts_config.equality)
      (simp_all add: config_keys_def CONFIG_KEY_def flip: word_uint_eq_iff word_eq_iff_signed)
qed

text \<open>A write through the table stores the value, in the field's width, at the field's offset.\<close>

lemma write_field_splice:
  assumes "k \<in> set config_keys"
  shows "write_field k v mem = splice (ck_offset k) (le_bytes (ck_size k) (sint v)) mem"
proof -
  have "le_bytes 1 (sint (ucast v :: int8_t)) = le_bytes 1 (sint v)"
    "le_bytes 1 (uint (ucast v :: uint8_t)) = le_bytes 1 (sint v)"
    "le_bytes 2 (sint (ucast v :: int16_t)) = le_bytes 2 (sint v)"
    "le_bytes 2 (uint (ucast v :: uint16_t)) = le_bytes 2 (sint v)"
    "le_bytes 4 (uint v) = le_bytes 4 (sint v)"
    by (rule le_bytes_cong, simp add: cast_mod)+
  then show ?thesis
    using config_key_inside [OF assms] unfolding write_field_def by auto
qed

text \<open>What a key reads from memory, with the signedness its range implies.\<close>

definition key_val :: "ts_config_key \<Rightarrow> bytes \<Rightarrow> int" where
  "key_val k mem =
    (let v = le_val (slice (ck_offset k) (ck_size k) mem)
     in if ck_min k < 0 \<and> 256 ^ ck_size k \<le> 2 * v then v - 256 ^ ck_size k else v)"

lemma shifted_mod:
  assumes "0 \<le> x" "x < 2 * m"
  shows "(x + m) mod (2 * m) - m = (if m \<le> x then x - 2 * m else (x::int))"
proof (cases "m \<le> x")
  case True
  have "(x + m) mod (2 * m) = (x - m + 2 * m) mod (2 * m)" by (simp add: algebra_simps)
  also have "\<dots> = (x - m) mod (2 * m)" by (rule mod_add_self2)
  also have "\<dots> = x - m" using True assms by simp
  finally show ?thesis using True by simp
qed (use assms in simp)

lemma sint_word_of_int_bounds:
  "0 \<le> x \<Longrightarrow> x < 256 \<Longrightarrow> sint (word_of_int x :: int8_t) = (if 256 \<le> 2 * x then x - 256 else x)"
  "0 \<le> x \<Longrightarrow> x < 65536 \<Longrightarrow>
   sint (word_of_int x :: int16_t) = (if 65536 \<le> 2 * x then x - 65536 else x)"
  using shifted_mod [of x 128] shifted_mod [of x 32768]
  by (simp_all add: signed_of_int signed_take_bit_eq_take_bit_shift take_bit_eq_mod)

lemma key_bytes_bound:
  assumes "k \<in> set config_keys" "length mem = 48"
  shows "0 \<le> le_val (slice (ck_offset k) (ck_size k) mem)"
    and "le_val (slice (ck_offset k) (ck_size k) mem) < 256 ^ ck_size k"
  using le_val_bound [of "slice (ck_offset k) (ck_size k) mem"] config_key_inside [OF assms(1)]
    assms(2) by auto

lemma field_val_view:
  assumes "k \<in> set config_keys" "length mem = 48"
  shows "field_val (ck_name k) (config_view mem) = key_val k mem"
  using assms(1) key_bytes_bound [OF assms]
  by (auto simp: config_keys_def CONFIG_KEY_def key_val_def config_view_def load_field_def
      uint_word_of_int sint_word_of_int_bounds)

lemma config_key_fits:
  "k \<in> set config_keys \<Longrightarrow>
   (if ck_min k < 0 then - (256 ^ ck_size k) \<le> 2 * ck_min k \<and> 2 * ck_max k < 256 ^ ck_size k
    else ck_max k < 256 ^ ck_size k)"
  by (auto simp: config_keys_def CONFIG_KEY_def)

lemma key_bytes_write_same:
  "k \<in> set config_keys \<Longrightarrow> length mem = 48 \<Longrightarrow> slice (ck_offset k) (ck_size k) (write_field k v mem) = le_bytes (ck_size k) (sint v)"
  using config_key_inside [of k] by (simp add: write_field_splice mem_simps)

lemma key_val_write_same:
  assumes k: "k \<in> set config_keys" and len: "length mem = 48"
    and lo: "ck_min k \<le> sint v" and hi: "sint v \<le> ck_max k"
  shows "key_val k (write_field k v mem) = sint v"
proof -
  let ?m = "(256::int) ^ ck_size k"
  note sl = key_bytes_write_same [OF k len, of v]
  show ?thesis
  proof (cases "sint v < 0")
    case True
    with lo have neg: "ck_min k < 0" by simp
    with config_key_fits [OF k] lo have "- ?m \<le> 2 * sint v" by simp
    with True have "sint v mod ?m = sint v + ?m"
      by (smt (verit) mod_add_self2 mod_pos_pos_trivial)
    with True neg \<open>- ?m \<le> 2 * sint v\<close> show ?thesis
      by (simp add: key_val_def sl mem_simps)
  next
    case False
    with config_key_fits [OF k] hi have "sint v < ?m \<and> (ck_min k < 0 \<longrightarrow> 2 * sint v < ?m)"
      by (auto split: if_splits)
    with False show ?thesis
      by (auto simp: key_val_def sl mem_simps Let_def)
  qed
qed

lemma key_val_write_other:
  assumes "k \<in> set config_keys" "k' \<in> set config_keys" "ck_name k \<noteq> ck_name k'" "length mem = 48"
  shows "key_val k' (write_field k v mem) = key_val k' mem"
proof -
  have "slice (ck_offset k') (ck_size k') (write_field k v mem) = slice (ck_offset k') (ck_size k') mem"
    using config_keys_disjoint [OF assms(1-3)] config_key_inside [OF assms(1)] assms(4)
    by (auto simp: write_field_splice [OF assms(1)] mem_simps)
  then show ?thesis by (simp add: key_val_def)
qed

lemma length_config_image [simp]: "length (config_image c) = 48"
  by (simp add: config_image_def)

text \<open>Assigning a struct and reading it back is the identity.\<close>

lemma config_view_image [simp]: "config_view (config_image c) = c"
  by (simp add: config_view_def config_image_def load_field_def slice_def drop_append mem_simps)

section \<open>Loading\<close>

abbreviation key_bytes :: "ts_config_key \<Rightarrow> bytes \<Rightarrow> bytes" where
  "key_bytes k mem \<equiv> slice (ck_offset k) (ck_size k) mem"

text \<open>
  The settings callback writes at most the bytes of the key it was called for, whatever the
  stored length and the read callback do.
\<close>

lemma settings_set_length [simp]:
  "length mem = 48 \<Longrightarrow> length (snd (config_settings_set it mem)) = 48"
  by (auto simp: config_settings_set_def Let_def split: option.splits prod.splits if_splits
      dest!: find_key_mem config_key_inside)

lemma settings_set_frame:
  assumes k: "k \<in> set config_keys" and ne: "si_key it \<noteq> ck_name k" and len: "length mem = 48"
  shows "key_bytes k (snd (config_settings_set it mem)) = key_bytes k mem"
proof (cases "find_key (si_key it)")
  case None
  then show ?thesis by (simp add: config_settings_set_def)
next
  case (Some e)
  from find_key_mem [OF Some] have e: "e \<in> set config_keys" "ck_name e = si_key it" by auto
  have "key_bytes k (splice (ck_offset e) (take (ck_size e) bs) mem) = key_bytes k mem" for bs
    using config_keys_disjoint [OF e(1) k] e(2) ne config_key_inside [OF e(1)] len
    by (auto simp: mem_simps)
  with Some show ?thesis
    by (simp add: config_settings_set_def Let_def split: prod.splits)
qed

lemma settings_set_hit:
  assumes "k \<in> set config_keys" "si_key it = ck_name k" "length mem = 48"
    "si_len it = ck_size k" "si_read it (ck_size k) = (r, v)" "length v = ck_size k"
  shows "key_bytes k (snd (config_settings_set it mem)) = v"
  using assms config_key_inside [OF assms(1)] find_key_of_name [OF assms(1)]
  by (simp add: config_settings_set_def Let_def mem_simps split: if_splits)

lemma settings_set_bad_length:
  assumes "k \<in> set config_keys" "si_key it = ck_name k" "si_len it \<noteq> ck_size k"
  shows "snd (config_settings_set it mem) = mem"
  using assms find_key_of_name [OF assms(1)] by (simp add: config_settings_set_def)

lemma load_items_simps [simp]:
  "load_items [] mem = mem"
  "load_items (it # its) mem = load_items its (snd (config_settings_set it mem))"
  by (simp_all add: load_items_def)

lemma load_items_length [simp]: "length mem = 48 \<Longrightarrow> length (load_items its mem) = 48"
  by (induction its arbitrary: mem) auto

lemma load_items_frame:
  "k \<in> set config_keys \<Longrightarrow> ck_name k \<notin> si_key ` set its \<Longrightarrow> length mem = 48 \<Longrightarrow>
   key_bytes k (load_items its mem) = key_bytes k mem"
  by (induction its arbitrary: mem) (auto simp: settings_set_frame)

lemma load_items_hit:
  assumes "k \<in> set config_keys" "distinct (map si_key its)" "it \<in> set its" "si_key it = ck_name k"
    "si_len it = ck_size k" "si_read it (ck_size k) = (r, v)" "length v = ck_size k" "length mem = 48"
  shows "key_bytes k (load_items its mem) = v"
  using assms(2,3,8)
proof (induction its arbitrary: mem)
  case (Cons x its)
  show ?case
  proof (cases "x = it")
    case True
    with Cons.prems assms(4) have "ck_name k \<notin> si_key ` set its" by auto
    with Cons.prems True assms show ?thesis
      by (simp add: load_items_frame settings_set_hit)
  next
    case False
    with Cons show ?thesis by simp
  qed
qed simp

lemma load_items_bad_length:
  assumes "k \<in> set config_keys" "length mem = 48"
    "\<And>it. it \<in> set its \<Longrightarrow> si_key it = ck_name k \<Longrightarrow> si_len it \<noteq> ck_size k"
  shows "key_bytes k (load_items its mem) = key_bytes k mem"
  using assms(2,3)
proof (induction its arbitrary: mem)
  case (Cons x its)
  have "key_bytes k (snd (config_settings_set x mem)) = key_bytes k mem"
  proof (cases "si_key x = ck_name k")
    case True
    with Cons.prems assms(1) show ?thesis by (simp add: settings_set_bad_length)
  next
    case False
    with Cons.prems assms(1) show ?thesis by (simp add: settings_set_frame)
  qed
  with Cons show ?case by simp
qed simp

lemma key_val_cong: "key_bytes k mem = key_bytes k mem' \<Longrightarrow> key_val k mem = key_val k mem'"
  by (simp add: key_val_def)

text \<open>
  After a successful start a key holds its persisted value, if one of the right length is
  stored under its name, and its default otherwise.
\<close>

context settings
begin

lemma init_key_bytes:
  assumes k: "k \<in> set config_keys"
    and ok: "ts_config_init S st = (0, st')"
  shows "key_bytes k (live_config st') =
    (case persisted (nvs st) (''ts/'' @ ck_name k) of
       Some v \<Rightarrow> if length v = ck_size k then v else key_bytes k (config_image TS_CONFIG_DEFAULTS)
     | None \<Rightarrow> key_bytes k (config_image TS_CONFIG_DEFAULTS))"
proof -
  obtain n where n: "settings_subsys_init S (nvs st) = (0, n)"
    using ok by (auto simp: ts_config_init_def Let_def split: prod.splits if_splits)
  obtain its where its: "settings_load S n = (0, its)"
    using ok n by (auto simp: ts_config_init_def Let_def split: prod.splits if_splits)
  have live: "live_config st' = load_items its (config_image TS_CONFIG_DEFAULTS)"
    using ok n its by (auto simp: ts_config_init_def Let_def)
  have per: "persisted n = persisted (nvs st)" by (rule subsys_init [OF n])
  show ?thesis
  proof (cases "persisted (nvs st) (''ts/'' @ ck_name k)")
    case None
    then have "ck_name k \<notin> si_key ` set its"
      using load_sound [OF its] per by fastforce
    with None live k show ?thesis by (simp add: load_items_frame)
  next
    case (Some v)
    then obtain it where it: "it \<in> set its" "si_key it = ck_name k"
      using load_complete [OF its] per by (metis imageE)
    from load_sound [OF its it(1)] it(2) Some per
    have sl: "si_len it = length v" "si_read it (length v) = (int (length v), v)" by auto
    show ?thesis
    proof (cases "length v = ck_size k")
      case True
      with load_items_hit [OF k load_distinct [OF its] it _ _ True] sl live Some
      show ?thesis by simp
    next
      case False
      have "si_len x \<noteq> ck_size k" if "x \<in> set its" "si_key x = ck_name k" for x
        using load_sound [OF its that(1)] that(2) Some per False by auto
      with load_items_bad_length [OF k] live Some False show ?thesis by simp
    qed
  qed
qed

end

section \<open>Setting a value\<close>

lemma ts_config_set_cases:
  obtains
    (unknown) "find_key (config_field_name p) = None" "ts_config_set S p v st = (-ENOENT, st)"
  | (range) k where "find_key (config_field_name p) = Some k"
      "sint v < ck_min k \<or> ck_max k < sint v" "ts_config_set S p v st = (-EINVAL, st)"
  | (stored) k ret n where "find_key (config_field_name p) = Some k" "k \<in> set config_keys"
      "ck_min k \<le> sint v" "sint v \<le> ck_max k"
      "settings_save_one S (full_name (ck_name k)) (key_bytes k (write_field k v (live_config st)))
         (nvs st) = (ret, n)"
      "ts_config_set S p v st = (ret, st\<lparr>live_config := write_field k v (live_config st), nvs := n\<rparr>)"
proof (cases "find_key (config_field_name p)")
  case None
  then show thesis by (intro unknown) (simp_all add: ts_config_set_def)
next
  case (Some k)
  show thesis
  proof (cases "sint v < ck_min k \<or> ck_max k < sint v")
    case True
    with Some show thesis by (intro range) (simp_all add: ts_config_set_def)
  next
    case False
    obtain ret n where sv: "settings_save_one S (full_name (ck_name k))
        (key_bytes k (write_field k v (live_config st))) (nvs st) = (ret, n)"
      by (cases "settings_save_one S (full_name (ck_name k))
        (key_bytes k (write_field k v (live_config st))) (nvs st)")
    from False Some sv have "ts_config_set S p v st =
        (ret, st\<lparr>live_config := write_field k v (live_config st), nvs := n\<rparr>)"
      by (simp add: ts_config_set_def Let_def)
    with False Some sv find_key_mem [OF Some] show thesis by (intro stored) auto
  qed
qed

lemma config_name_no_prefix: "k \<in> set config_keys \<Longrightarrow> take 3 (ck_name k) \<noteq> ''ts/''"
  by (auto simp: config_keys_def CONFIG_KEY_def)

lemma find_key_config_field_name:
  assumes "k \<in> set config_keys" "p = ck_name k \<or> p = ''ts/'' @ ck_name k"
  shows "find_key (config_field_name p) = Some k"
  using assms config_name_no_prefix [OF assms(1)] find_key_of_name [OF assms(1)]
  by (auto simp: config_field_name_def)

lemma config_in_range_iff:
  "length mem = 48 \<Longrightarrow>
   config_in_range (config_view mem) \<longleftrightarrow>
     (\<forall>k \<in> set config_keys. ck_min k \<le> key_val k mem \<and> key_val k mem \<le> ck_max k)"
  by (simp add: config_in_range_def field_val_view)

text \<open>The invariant of the module: the memory has the size of the struct, every field is in range.\<close>

definition config_ok :: "'n config_state \<Rightarrow> bool" where
  "config_ok st \<longleftrightarrow> length (live_config st) = 48 \<and> config_in_range (ts_config_get st)"

lemma write_field_in_range:
  assumes k: "k \<in> set config_keys" and v: "ck_min k \<le> sint v" "sint v \<le> ck_max k"
    and m: "length mem = 48" "config_in_range (config_view mem)"
  shows "config_in_range (config_view (write_field k v mem))"
  using m(2) k m(1) v key_val_write_same [OF k m(1) v]
  by (auto simp: config_in_range_iff)
    (metis key_val_write_other config_keys_distinct find_key_of_name option.inject)+

lemma ts_config_set_ok [inv_intros]: "config_ok st \<Longrightarrow> config_ok (snd (ts_config_set S p v st))"
  by (rule ts_config_set_cases [of p S v st])
    (auto simp: config_ok_def ts_config_get_def write_field_in_range)

lemma defaults_in_range: "config_in_range TS_CONFIG_DEFAULTS"
  by (simp add: config_in_range_def config_keys_def CONFIG_KEY_def TS_CONFIG_DEFAULTS_def)

lemma ts_config_reset_ok [inv_intros]: "config_ok (snd (ts_config_reset S st))"
  by (simp add: config_ok_def ts_config_reset_def ts_config_get_def defaults_in_range)

section \<open>What survives a restart\<close>

text \<open>Stored values that a start would accept: of the right length and in range.\<close>

definition stored_ok :: "(string \<Rightarrow> bytes option) \<Rightarrow> bool" where
  "stored_ok m \<longleftrightarrow>
     (\<forall>k \<in> set config_keys. \<forall>v. m (''ts/'' @ ck_name k) = Some v \<longrightarrow> length v = ck_size k \<longrightarrow>
        ck_min k \<le> key_val k (splice (ck_offset k) v (replicate 48 0)) \<and>
        key_val k (splice (ck_offset k) v (replicate 48 0)) \<le> ck_max k)"

lemma key_val_splice:
  assumes "k \<in> set config_keys" "length v = ck_size k" "key_bytes k mem = v"
  shows "key_val k (splice (ck_offset k) v (replicate 48 0)) = key_val k mem"
  using assms config_key_inside [OF assms(1)] by (intro key_val_cong) (simp add: mem_simps)

text \<open>All names but one fit the 32-byte buffer with their prefix.\<close>

lemma full_name_fits:
  "k \<in> set config_keys \<Longrightarrow> ck_name k \<noteq> ''routing_table_stale_timeout_s'' \<Longrightarrow>
   full_name (ck_name k) = ''ts/'' @ ck_name k"
  by (auto simp: config_keys_def CONFIG_KEY_def full_name_def)

lemma full_name_truncated:
  "full_name ''routing_table_stale_timeout_s'' = ''ts/routing_table_stale_timeout_''"
  by (simp add: full_name_def)

lemma full_name_eq_iff:
  assumes k: "k \<in> set config_keys" and k': "k' \<in> set config_keys"
  shows "full_name (ck_name k) = ''ts/'' @ ck_name k' \<longleftrightarrow>
    k = k' \<and> ck_name k \<noteq> ''routing_table_stale_timeout_s''"
proof (cases "ck_name k = ''routing_table_stale_timeout_s''")
  case True
  have "''routing_table_stale_timeout_'' \<noteq> ck_name k'"
    using k' by (auto simp: config_keys_def CONFIG_KEY_def)
  with True show ?thesis by (simp add: full_name_truncated)
next
  case False
  have "ck_name k = ck_name k' \<longleftrightarrow> k = k'"
    using find_key_of_name [OF k] find_key_of_name [OF k'] by (metis option.inject)
  with False show ?thesis by (simp only: full_name_fits [OF k] append_same_eq same_append_eq simp_thms)
qed

lemma default_key_in_range:
  "k \<in> set config_keys \<Longrightarrow>
   ck_min k \<le> key_val k (config_image TS_CONFIG_DEFAULTS) \<and>
   key_val k (config_image TS_CONFIG_DEFAULTS) \<le> ck_max k"
  using defaults_in_range config_in_range_iff [of "config_image TS_CONFIG_DEFAULTS"] by simp

lemma ts_config_init_length: "length (live_config (snd (ts_config_init S st))) = 48"
  by (simp add: ts_config_init_def Let_def split: prod.splits)

lemma stored_ok_update:
  assumes "stored_ok m" and k: "k \<in> set config_keys" and "length mem = 48"
    and r: "ck_min k \<le> key_val k mem \<and> key_val k mem \<le> ck_max k"
  shows "stored_ok (m(full_name (ck_name k) \<mapsto> key_bytes k mem))"
  unfolding stored_ok_def
proof (intro ballI allI impI)
  fix k' w
  assume k': "k' \<in> set config_keys" and len: "length w = ck_size k'"
    and w: "(m(full_name (ck_name k) \<mapsto> key_bytes k mem)) (''ts/'' @ ck_name k') = Some w"
  show "ck_min k' \<le> key_val k' (splice (ck_offset k') w (replicate 48 0)) \<and>
      key_val k' (splice (ck_offset k') w (replicate 48 0)) \<le> ck_max k'"
  proof (cases "full_name (ck_name k) = ''ts/'' @ ck_name k'")
    case True
    then have "k = k'" using full_name_eq_iff [OF k k'] by simp
    with key_val_splice [OF k' len, of mem] w True r show ?thesis by simp
  next
    case False
    with assms(1) k' w len show ?thesis by (auto simp: stored_ok_def)
  qed
qed

text \<open>A stored value in range that the callback copies keeps the configuration in range.\<close>

lemma settings_set_in_range:
  assumes "stored_ok m" "m (''ts/'' @ si_key it) = Some v" "si_len it = length v"
    and "si_read it (length v) = (r, v)" "length mem = 48" "config_in_range (config_view mem)"
  shows "config_in_range (config_view (snd (config_settings_set it mem)))"
proof -
  let ?mem = "snd (config_settings_set it mem)"
  have "ck_min k \<le> key_val k ?mem \<and> key_val k ?mem \<le> ck_max k" if k: "k \<in> set config_keys" for k
  proof (cases "si_key it = ck_name k \<and> length v = ck_size k")
    case True
    with settings_set_hit [OF k, of it mem r v] assms have "key_bytes k ?mem = v" by simp
    with True assms(1,2) k key_val_splice [OF k _ this] show ?thesis by (auto simp: stored_ok_def)
  next
    case False
    then have "key_bytes k ?mem = key_bytes k mem"
      using settings_set_frame [OF k _ assms(5)] settings_set_bad_length [OF k, of it mem] assms(3) by metis
    with key_val_cong [OF this] assms(5,6) k show ?thesis by (simp add: config_in_range_iff)
  qed
  then show ?thesis using assms(5) by (simp add: config_in_range_iff)
qed

context settings
begin

lemma set_persisted:
  assumes "ts_config_set S p v st = (0, st')" "find_key (config_field_name p) = Some k"
  shows "persisted (nvs st') =
      (persisted (nvs st))(full_name (ck_name k) \<mapsto> key_bytes k (live_config st'))"
    and "live_config st' = write_field k v (live_config st)"
    and "ck_min k \<le> sint v \<and> sint v \<le> ck_max k"
  by (rule ts_config_set_cases [of p S v st]; use assms in \<open>auto dest!: save_one\<close>)+

lemma load_in_range:
  assumes "settings_load S n = (r, its)" "stored_ok (persisted n)" "set xs \<subseteq> set its"
    and "length mem = 48" "config_in_range (config_view mem)"
  shows "config_in_range (config_view (load_items xs mem))"
  using assms(3-5)
proof (induction xs arbitrary: mem)
  case (Cons it xs)
  from load_sound [OF assms(1), of it] Cons.prems(1) obtain v where
    v: "persisted n (''ts/'' @ si_key it) = Some v" "si_len it = length v" "si_read it (length v) = (int (length v), v)"
    by auto
  have "config_in_range (config_view (snd (config_settings_set it mem)))"
    by (rule settings_set_in_range [OF assms(2) v Cons.prems(2,3)])
  with Cons show ?case by simp
qed simp

lemma init_in_range:
  assumes "stored_ok (persisted (nvs st))"
  shows "config_ok (snd (ts_config_init S st))"
proof -
  obtain r n where n: "settings_subsys_init S (nvs st) = (r, n)" by fastforce
  obtain r' its where its: "settings_load S n = (r', its)" by fastforce
  have "config_in_range (config_view (load_items its (config_image TS_CONFIG_DEFAULTS)))"
    using load_in_range [OF its _ subset_refl, of "config_image TS_CONFIG_DEFAULTS"] assms subsys_init [OF n]
      defaults_in_range by simp
  with n its defaults_in_range show ?thesis
    by (simp add: ts_config_init_def config_ok_def ts_config_get_def Let_def)
qed

lemma init_persisted: "persisted (nvs (snd (ts_config_init S st))) = persisted (nvs st)"
  using subsys_init [of "nvs st"] by (simp add: ts_config_init_def Let_def split: prod.split)

end

context settings_atomic
begin

text \<open>Whatever a set returns, what is stored afterwards is in range.\<close>

lemma set_stored_ok:
  assumes "stored_ok (persisted (nvs st))" "config_ok st"
  shows "stored_ok (persisted (nvs (snd (ts_config_set S p v st))))"
proof (cases rule: ts_config_set_cases [of p S v st])
  case (stored k ret n)
  let ?mem = "write_field k v (live_config st)"
  have "ck_min k \<le> key_val k ?mem \<and> key_val k ?mem \<le> ck_max k"
    using key_val_write_same [OF stored(2) _ stored(3,4)] stored(3,4) assms(2) by (simp add: config_ok_def)
  with stored_ok_update [OF assms(1) stored(2), of ?mem] save_atomic [OF stored(5)] assms stored(2,6)
  show ?thesis by (auto simp: config_ok_def)
qed (use assms in simp_all)

end

section \<open>Properties\<close>

text \<open>A node with an empty store, for the concrete runs below.\<close>

definition fresh_config :: "ref_nvs config_state" where
  "fresh_config = \<lparr>live_config = config_image TS_CONFIG_DEFAULTS, nvs = []\<rparr>"

lemma fresh_config_simps [simp]:
  "live_config fresh_config = config_image TS_CONFIG_DEFAULTS" "nvs fresh_config = []"
  by (simp_all add: fresh_config_def)

lemma stored_value:
  assumes k: "k \<in> set config_keys" and p: "p = ck_name k \<or> p = ''ts/'' @ ck_name k"
    and v: "ck_min k \<le> sint v" "sint v \<le> ck_max k" and len: "length (live_config st) = 48"
  shows "live_config (snd (ts_config_set S p v st)) = write_field k v (live_config st)"
    and "fst (ts_config_set S p v st) = fst (settings_save_one S (full_name (ck_name k))
           (key_bytes k (write_field k v (live_config st))) (nvs st))"
  using find_key_config_field_name [OF k p] v
  by (simp_all add: ts_config_set_def Let_def split: prod.splits)

lemma ref_set_succeeds:
  assumes "k \<in> set config_keys" "p = ck_name k \<or> p = ''ts/'' @ ck_name k"
    "ck_min k \<le> sint v" "sint v \<le> ck_max k" "length (live_config st) = 48"
  shows "ts_config_set ref_settings p v st = (0, snd (ts_config_set ref_settings p v st))"
  using stored_value(2) [OF assms, of ref_settings] by (simp add: ref_settings_def prod_eq_iff)

lemma full_name_key:
  "k \<in> set config_keys \<Longrightarrow> full_name (ck_name k) =
    (if ck_name k = ''routing_table_stale_timeout_s'' then ''ts/routing_table_stale_timeout_'' else ''ts/'' @ ck_name k)"
  using full_name_fits full_name_truncated by auto

text \<open>
  (C19) An accepted \<open>ts_config_set\<close> writes exactly the named field: with or without the
  \<open>ts/\<close> prefix, the field then reads back as the value that was set (negative values
  included), and every other field is unchanged. The bytes of the field are saved under
  \<open>ts/\<close> and the name of the key, of which the last letter is lost for one key; when the result
  is 0 they are what the store holds under that name afterwards, and all else in the store is
  as before. Otherwise the result is the error of the failed save.
\<close>

theorem ts_config_set_updates_field:
  assumes "settings S persisted" and "k \<in> set config_keys" and "p = ck_name k \<or> p = ''ts/'' @ ck_name k"
    and "ck_min k \<le> sint v" and "sint v \<le> ck_max k"
    and "length (live_config st) = sizeof_ts_config"
    and "ts_config_set S p v st = (ret, st')"
  shows "field_val (ck_name k) (ts_config_get st') = sint v \<and>
    (\<forall>k' \<in> set config_keys. ck_name k' \<noteq> ck_name k \<longrightarrow>
       field_val (ck_name k') (ts_config_get st') = field_val (ck_name k') (ts_config_get st)) \<and>
    (let name = (if ck_name k = ''routing_table_stale_timeout_s'' then ''ts/routing_table_stale_timeout_''
                 else ''ts/'' @ ck_name k);
         bytes = le_bytes (ck_size k) (sint v)
     in settings_save_one S name bytes (nvs st) = (ret, nvs st') \<and>
        (ret = 0 \<longrightarrow> persisted (nvs st') = (persisted (nvs st))(name \<mapsto> bytes)))"
proof -
  have len: "length (live_config st) = 48" using assms(6) by simp
  have st': "live_config st' = write_field k v (live_config st)"
    using stored_value(1) [OF assms(2-5) len, of S] assms(7) by simp
  have save: "settings_save_one S (full_name (ck_name k)) (le_bytes (ck_size k) (sint v)) (nvs st) = (ret, nvs st')"
    using find_key_config_field_name [OF assms(2,3)] assms(4,5,7)
      key_bytes_write_same [OF assms(2) len, of v] 
    by (cases rule: ts_config_set_cases [of p S v st]) auto
  then have "ret = 0 \<longrightarrow> persisted (nvs st') = (persisted (nvs st))(full_name (ck_name k) \<mapsto>
      le_bytes (ck_size k) (sint v))"
    using settings.save_one [OF assms(1)] by blast
  moreover have "field_val (ck_name k) (ts_config_get st') = sint v \<and>
    (\<forall>k' \<in> set config_keys. ck_name k' \<noteq> ck_name k \<longrightarrow>
       field_val (ck_name k') (ts_config_get st') = field_val (ck_name k') (ts_config_get st))"
    using st' assms(2-5) len
    by (simp add: ts_config_get_def field_val_view key_val_write_same key_val_write_other)
  ultimately show ?thesis using save unfolding Let_def full_name_key [OF assms(2), symmetric] by blast
qed

theorem ts_config_set_updates_field_witness:
  "field_val ''lora_tx_power''
     (ts_config_get (snd (ts_config_set ref_settings ''ts/lora_tx_power'' (-2) fresh_config))) = -2 \<and>
   map_of (nvs (snd (ts_config_set ref_settings ''ts/lora_tx_power'' (-2) fresh_config))) ''ts/lora_tx_power'' = Some [254]"
proof -
  let ?k = "CONFIG_KEY ''lora_tx_power'' (-9) 22" and ?v = "-2 :: int32_t"
  have k: "?k \<in> set config_keys" by (simp add: config_keys_def)
  have p: "''ts/lora_tx_power'' = ''ts/'' @ ck_name ?k" by (simp add: CONFIG_KEY_def)
  note r = ref_set_succeeds [OF k disjI2 [OF p], of ?v fresh_config]
  let ?c = "snd (ts_config_set ref_settings ''ts/lora_tx_power'' ?v fresh_config)"
  have "field_val ''lora_tx_power'' (ts_config_get ?c) = -2 \<and>
      map_of (nvs ?c) ''ts/lora_tx_power'' = Some (le_bytes (ck_size ?k) (sint ?v))"
    using ts_config_set_updates_field [OF ref_settings.settings_axioms k disjI2 [OF p], of ?v fresh_config 0 ?c] r
    by (simp add: CONFIG_KEY_def Let_def)
  moreover have "le_bytes (ck_size ?k) (sint ?v) = [254]" by (simp add: CONFIG_KEY_def)
  ultimately show ?thesis by simp
qed

text \<open>
  A rejected \<open>ts_config_set\<close> changes nothing: an unknown key gives \<open>-ENOENT\<close>, a value
  outside the range of its key \<open>-EINVAL\<close>, and in both cases memory and store are as before.
\<close>

lemma ts_config_set_rejects:
  "((\<forall>k \<in> set config_keys. ck_name k \<noteq> config_field_name p) \<longrightarrow>
      ts_config_set S p v st = (-ENOENT, st)) \<and>
   (\<forall>k \<in> set config_keys. ck_name k = config_field_name p \<and>
      (sint v < ck_min k \<or> ck_max k < sint v) \<longrightarrow> ts_config_set S p v st = (-EINVAL, st))"
proof (intro conjI impI ballI)
  assume "\<forall>k \<in> set config_keys. ck_name k \<noteq> config_field_name p"
  then have "find_key (config_field_name p) = None"
    by (simp add: find_key_def loop_simps)
  then show "ts_config_set S p v st = (-ENOENT, st)" by (simp add: ts_config_set_def)
next
  fix k
  assume "k \<in> set config_keys"
    and r: "ck_name k = config_field_name p \<and> (sint v < ck_min k \<or> ck_max k < sint v)"
  with find_key_of_name have "find_key (config_field_name p) = Some k" by metis
  with r show "ts_config_set S p v st = (-EINVAL, st)" by (auto simp: ts_config_set_def)
qed

text \<open>A node that sets values one after the other, whatever the results.\<close>

fun set_all :: "'n settings_api \<Rightarrow> (string \<times> int32_t) list \<Rightarrow> 'n config_state \<Rightarrow> 'n config_state" where
  "set_all S [] st = st"
| "set_all S ((p, v) # xs) st = set_all S xs (snd (ts_config_set S p v st))"

lemma set_all_ok: "config_ok st \<Longrightarrow> config_ok (set_all S xs st)"
  by (induction S xs st rule: set_all.induct) (simp_all add: ts_config_set_ok)

text \<open>
  (C21) The configuration is always in range: started from a store whose values are in range
  (an empty one, for instance), whether the start succeeds or fails, and after any sequence of
  \<open>ts_config_set\<close> calls, failed saves included, every field of the live configuration lies
  within the limits of its key.
\<close>

theorem config_always_in_range:
  assumes "settings S persisted" and "stored_ok (persisted (nvs st))"
  shows "config_in_range (ts_config_get (set_all S xs (snd (ts_config_init S st))))"
  using set_all_ok [OF settings.init_in_range [OF assms]] by (simp add: config_ok_def)

lemma ref_settings_empty_load: "settings_load ref_settings [] = (0, [])"
  by (simp add: ref_settings_def)

lemma ref_init_fresh: "ts_config_init ref_settings fresh_config = (0, fresh_config)"
  by (simp add: ts_config_init_def ref_settings_def fresh_config_def)

theorem config_always_in_range_witness:
  "config_in_range (ts_config_get (set_all ref_settings
     [(''ts/routing_ttl'', 8), (''ts/lora_sf'', 99), (''contention_rssi_weak'', -100)] fresh_config))"
  using config_always_in_range [OF ref_settings.settings_axioms, of fresh_config] ref_init_fresh
  by (simp add: stored_ok_def del: set_all.simps)

text \<open>
  (C20) A value set for any key but \<open>routing_table_stale_timeout_s\<close> survives a restart: when
  the set reported success and the next start succeeds, the field holds the value that was
  set, and every other field holds what it would have held without the set.
\<close>

theorem config_survives_restart:
  assumes "settings S persisted" and "k \<in> set config_keys"
    and "ck_name k \<noteq> ''routing_table_stale_timeout_s''"
    and "p = ck_name k \<or> p = ''ts/'' @ ck_name k"
    and "length (live_config st) = sizeof_ts_config"
    and "ts_config_set S p v st = (0, st1)" and "ts_config_init S st1 = (0, st2)"
    and "ts_config_init S st = (0, st0)"
  shows "field_val (ck_name k) (ts_config_get st2) = sint v \<and>
    (\<forall>k' \<in> set config_keys. k' \<noteq> k \<longrightarrow>
       field_val (ck_name k') (ts_config_get st2) = field_val (ck_name k') (ts_config_get st0))"
proof -
  note set = settings.set_persisted [OF assms(1) assms(6) find_key_config_field_name [OF assms(2,4)]]
  note init = settings.init_key_bytes [OF assms(1) _ assms(7)]
  have len: "length (live_config st1) = 48" "length (live_config st2) = 48" "length (live_config st0) = 48"
    using set(2) assms(2,5) ts_config_init_length [of S st1] ts_config_init_length [of S st] assms(7,8)
    by auto
  have fn: "full_name (ck_name k) = ''ts/'' @ ck_name k" by (rule full_name_fits [OF assms(2,3)])
  have "key_bytes k (live_config st2) = key_bytes k (live_config st1)"
    using init [OF assms(2)] set(1) fn config_key_inside [OF assms(2)] len by simp
  then have "key_val k (live_config st2) = sint v"
    using key_val_cong set(2,3) key_val_write_same [OF assms(2)] assms(5) by (metis sizeof_ts_config_48)
  moreover have "key_val k' (live_config st2) = key_val k' (live_config st0)"
    if "k' \<in> set config_keys" "k' \<noteq> k" for k'
  proof (rule key_val_cong)
    have "full_name (ck_name k) \<noteq> ''ts/'' @ ck_name k'"
      using full_name_eq_iff [OF assms(2) that(1)] that(2) by simp
    then show "key_bytes k' (live_config st2) = key_bytes k' (live_config st0)"
      using init [OF that(1)] settings.init_key_bytes [OF assms(1) that(1) assms(8)] set(1) by simp
  qed
  ultimately show ?thesis using len assms(2) by (simp add: ts_config_get_def field_val_view)
qed

lemma ref_init_succeeds: "ts_config_init ref_settings st = (0, snd (ts_config_init ref_settings st))"
  by (simp add: ts_config_init_def ref_settings_def Let_def)

theorem config_survives_restart_witness:
  "routing_ttl (ts_config_get (snd (ts_config_init ref_settings
     (snd (ts_config_set ref_settings ''ts/routing_ttl'' 3 fresh_config))))) = 3"
proof -
  let ?k = "CONFIG_KEY ''routing_ttl'' 1 255"
  have k: "?k \<in> set config_keys" by (simp add: config_keys_def)
  have "field_val (ck_name ?k) (ts_config_get (snd (ts_config_init ref_settings
     (snd (ts_config_set ref_settings ''ts/routing_ttl'' 3 fresh_config))))) = sint (3 :: int32_t)"
    by (rule conjunct1 [OF config_survives_restart [OF ref_settings.settings_axioms k _ _ _
        ref_set_succeeds [OF k] ref_init_succeeds ref_init_succeeds]])
      (simp_all add: CONFIG_KEY_def)
  then show ?thesis by (simp add: CONFIG_KEY_def word_uint_eq_iff)
qed

text \<open>
  (C38) The exception: \<open>ts/routing_table_stale_timeout_s\<close> has 32 characters and does not fit
  \<open>char full_name[32]\<close> with its terminator, so its value is saved under a truncated name. A
  set that reports success takes effect, but after the next start the default is back.
\<close>

theorem stale_timeout_lost_on_restart:
  assumes "settings S persisted"
    and "persisted (nvs st) ''ts/routing_table_stale_timeout_s'' = None"
    and "length (live_config st) = sizeof_ts_config"
    and "ts_config_set S ''routing_table_stale_timeout_s'' v st = (0, st1)"
    and "ts_config_init S st1 = (0, st2)"
  shows "routing_table_stale_timeout_s (ts_config_get st1) = v \<and>
         routing_table_stale_timeout_s (ts_config_get st2) =
           routing_table_stale_timeout_s TS_CONFIG_DEFAULTS"
proof -
  let ?k = "CONFIG_KEY ''routing_table_stale_timeout_s'' 1 86400"
  have k: "?k \<in> set config_keys" by (simp add: config_keys_def)
  have nm: "ck_name ?k = ''routing_table_stale_timeout_s''" by (simp add: CONFIG_KEY_def)
  note set = settings.set_persisted [OF assms(1,4) find_key_config_field_name [OF k disjI1 [OF nm [symmetric]]]]
  have len: "length (live_config st1) = 48" "length (live_config st2) = 48"
    using set(2) k assms(3,5) ts_config_init_length [of S st1] by auto
  have "key_bytes ?k (live_config st2) = key_bytes ?k (config_image TS_CONFIG_DEFAULTS)"
    using settings.init_key_bytes [OF assms(1) k assms(5)] set(1) assms(2)
    by (simp add: nm full_name_truncated)
  then have "key_val ?k (live_config st2) = key_val ?k (config_image TS_CONFIG_DEFAULTS)"
    by (rule key_val_cong)
  then have "field_val (ck_name ?k) (ts_config_get st2) = field_val (ck_name ?k) TS_CONFIG_DEFAULTS"
    using len field_val_view [OF k, of "config_image TS_CONFIG_DEFAULTS"]
    by (simp add: ts_config_get_def field_val_view [OF k])
  moreover have "field_val (ck_name ?k) (ts_config_get st1) = sint v"
    using set(2,3) assms(3) k by (simp add: ts_config_get_def field_val_view key_val_write_same)
  moreover have "sint v = uint v"
    using set(3) by (simp add: CONFIG_KEY_def sint_nonneg_uint)
  ultimately show ?thesis by (simp add: nm word_uint_eq_iff)
qed

theorem stale_timeout_lost_on_restart_witness:
  "routing_table_stale_timeout_s (ts_config_get (snd (ts_config_set ref_settings
     ''routing_table_stale_timeout_s'' 900 fresh_config))) = 900 \<and>
   routing_table_stale_timeout_s (ts_config_get (snd (ts_config_init ref_settings
     (snd (ts_config_set ref_settings ''routing_table_stale_timeout_s'' 900 fresh_config))))) = 300"
proof -
  let ?k = "CONFIG_KEY ''routing_table_stale_timeout_s'' 1 86400"
  have k: "?k \<in> set config_keys" by (simp add: config_keys_def)
  have "ts_config_set ref_settings ''routing_table_stale_timeout_s'' 900 fresh_config =
      (0, snd (ts_config_set ref_settings ''routing_table_stale_timeout_s'' 900 fresh_config))"
    by (rule ref_set_succeeds [OF k]) (simp_all add: CONFIG_KEY_def)
  from stale_timeout_lost_on_restart [OF ref_settings.settings_axioms _ _ this ref_init_succeeds]
  show ?thesis by (simp add: TS_CONFIG_DEFAULTS_def)
qed

context settings
begin

lemma deletes_persisted:
  assumes "\<And>k n. fst (settings_delete S k n) = 0"
  shows "persisted (foldl (\<lambda>n k. snd (settings_delete S (f k) n)) n ks) x =
    (if x \<in> f ` set ks then None else persisted n x)"
proof (induction ks arbitrary: n)
  case (Cons k ks)
  have "settings_delete S (f k) n = (0, snd (settings_delete S (f k) n))"
    using assms by (simp add: prod_eq_iff)
  from delete [OF this] show ?case by (auto simp: Cons.IH)
qed simp

end

text \<open>
  (C29) \<open>ts_config_reset\<close> reports success and restores every default, and the defaults are
  still in force after the next start (when the store carries out the deletions).
\<close>

theorem ts_config_reset_restores_defaults:
  assumes "settings S persisted" and "\<And>k n. fst (settings_delete S k n) = 0"
    and "persisted (nvs st) ''ts/routing_table_stale_timeout_s'' = None"
    and "ts_config_reset S st = (ret, st1)" and "ts_config_init S st1 = (0, st2)"
  shows "ret = 0 \<and> ts_config_get st1 = TS_CONFIG_DEFAULTS \<and> ts_config_get st2 = TS_CONFIG_DEFAULTS"
proof -
  have ret: "ret = 0" and live: "live_config st1 = config_image TS_CONFIG_DEFAULTS"
    and n: "nvs st1 = foldl (\<lambda>n k. snd (settings_delete S (full_name (ck_name k)) n)) (nvs st) config_keys"
    using assms(4) by (auto simp: ts_config_reset_def Let_def)
  have gone: "persisted (nvs st1) (''ts/'' @ ck_name k) = None" if "k \<in> set config_keys" for k
    unfolding n settings.deletes_persisted [OF assms(1,2)]
    using that full_name_fits [OF that] assms(3)
    by (cases "ck_name k = ''routing_table_stale_timeout_s''") (auto simp: image_iff)
  have "ts_config_get st2 = TS_CONFIG_DEFAULTS"
  proof (rule config_eqI)
    fix k assume k: "k \<in> set config_keys"
    have "key_bytes k (live_config st2) = key_bytes k (config_image TS_CONFIG_DEFAULTS)"
      using settings.init_key_bytes [OF assms(1) k assms(5)] gone [OF k] by simp
    then have "key_val k (live_config st2) = key_val k (config_image TS_CONFIG_DEFAULTS)"
      by (rule key_val_cong)
    then show "field_val (ck_name k) (ts_config_get st2) = field_val (ck_name k) TS_CONFIG_DEFAULTS"
      using field_val_view [OF k, of "config_image TS_CONFIG_DEFAULTS"]
        field_val_view [OF k, of "live_config st2"] ts_config_init_length [of S st1] assms(5)
      by (simp add: ts_config_get_def)
  qed
  with ret live show ?thesis by (simp add: ts_config_get_def)
qed

theorem ts_config_reset_restores_defaults_witness:
  "ts_config_get (snd (ts_config_init ref_settings (snd (ts_config_reset ref_settings
     (snd (ts_config_set ref_settings ''ts/lora_sf'' 12 fresh_config)))))) = TS_CONFIG_DEFAULTS"
proof -
  let ?k = "CONFIG_KEY ''lora_sf'' 5 12"
  let ?st = "snd (ts_config_set ref_settings ''ts/lora_sf'' 12 fresh_config)"
  have k: "?k \<in> set config_keys" by (simp add: config_keys_def)
  have p: "''ts/lora_sf'' = ck_name ?k \<or> ''ts/lora_sf'' = ''ts/'' @ ck_name ?k"
    by (simp add: CONFIG_KEY_def)
  have "ts_config_set ref_settings ''ts/lora_sf'' 12 fresh_config = (0, ?st)"
    by (rule ref_set_succeeds [OF k p]) (simp_all add: CONFIG_KEY_def)
  from ref_settings.set_persisted(1) [OF this find_key_config_field_name [OF k p]]
  have none: "map_of (nvs ?st) ''ts/routing_table_stale_timeout_s'' = None"
    by (simp add: CONFIG_KEY_def full_name_def)
  have del: "fst (settings_delete ref_settings k n) = 0" for k n by (simp add: ref_settings_def)
  have "ts_config_reset ref_settings ?st = (0, snd (ts_config_reset ref_settings ?st))"
    by (simp add: ts_config_reset_def Let_def)
  from ts_config_reset_restores_defaults [OF ref_settings.settings_axioms del none this ref_init_succeeds]
  show ?thesis by simp
qed

end
