(* ===== verification/Slots.thy ===== *)
theory Slots
  imports Prelude
begin

text \<open>
  Fixed arrays of slots with an \<open>occupied\<close> flag, the data structure behind the neighbour
  table (\<open>src/routing/routing_table.c\<close>) and the contention pool
  (\<open>src/lora/contention.c\<close>): what the array means as a finite map from keys to occupied
  slots, the invariant that no two occupied slots share a key, and, in the locale
  \<open>slot_table\<close>, how filling and releasing a slot change the map, the invariant and the
  number of occupied slots. The neighbour table interprets the locale; the contention pool,
  whose keys need not be distinct, uses the count.
\<close>

definition slot_lookup :: "('s \<Rightarrow> bool) \<Rightarrow> ('s \<Rightarrow> 'k) \<Rightarrow> 's list \<Rightarrow> 'k \<Rightarrow> 's option" where
  "slot_lookup occ key xs k =
     map_option (\<lambda>i. xs ! i) (first_index (\<lambda>s. occ s \<and> key s = k) xs)"

definition slot_distinct :: "('s \<Rightarrow> bool) \<Rightarrow> ('s \<Rightarrow> 'k) \<Rightarrow> 's list \<Rightarrow> bool" where
  "slot_distinct occ key xs \<longleftrightarrow>
     (\<forall>i < length xs. \<forall>j < length xs.
        occ (xs ! i) \<and> occ (xs ! j) \<and> key (xs ! i) = key (xs ! j) \<longrightarrow> i = j)"

definition slot_count :: "('s \<Rightarrow> bool) \<Rightarrow> 's list \<Rightarrow> nat" where
  "slot_count occ xs = length (filter occ xs)"

lemma slot_count_le: "slot_count occ xs \<le> length xs"
  by (simp add: slot_count_def)

lemma slot_count_update:
  "i < length xs \<Longrightarrow>
   slot_count occ (xs[i := s]) + (if occ (xs ! i) then 1 else 0) =
   slot_count occ xs + (if occ s then 1 else 0)"
proof (induction xs arbitrary: i)
  case Nil
  then show ?case by simp
next
  case (Cons x xs)
  then show ?case by (cases i) (auto simp: slot_count_def split: if_splits)
qed

lemma slot_count_all: "slot_count occ xs = length xs \<longleftrightarrow> (\<forall>x \<in> set xs. occ x)"
  unfolding slot_count_def
  by (metis filter_id_conv length_filter_less less_irrefl)

lemma slot_lookup_None: "slot_lookup occ key xs k = None \<longleftrightarrow> (\<forall>s \<in> set xs. occ s \<longrightarrow> key s \<noteq> k)"
  by (auto simp: slot_lookup_def loop_simps)

lemma slot_lookup_SomeD:
  assumes "slot_lookup occ key xs k = Some s"
  shows "occ s \<and> key s = k \<and> s \<in> set xs"
  using assms by (auto simp: slot_lookup_def dest: first_index_SomeD)

lemma slot_distinctD:
  "slot_distinct occ key xs \<Longrightarrow> i < length xs \<Longrightarrow> j < length xs \<Longrightarrow>
   occ (xs ! i) \<Longrightarrow> occ (xs ! j) \<Longrightarrow> key (xs ! i) = key (xs ! j) \<Longrightarrow> i = j"
  by (simp add: slot_distinct_def)

lemma slot_distinct_keys: "distinct (map key xs) \<Longrightarrow> slot_distinct occ key xs"
  by (auto simp: slot_distinct_def distinct_conv_nth)

lemma slot_lookup_nth:
  assumes "slot_distinct occ key xs" "i < length xs" "occ (xs ! i)"
  shows "slot_lookup occ key xs (key (xs ! i)) = Some (xs ! i)"
proof -
  have "first_index (\<lambda>s. occ s \<and> key s = key (xs ! i)) xs = Some i"
    by (rule first_index_unique) (use assms in \<open>auto intro: slot_distinctD\<close>)
  then show ?thesis by (simp add: slot_lookup_def)
qed

lemma slot_lookup_iff:
  assumes "slot_distinct occ key xs"
  shows "slot_lookup occ key xs k = Some s \<longleftrightarrow> s \<in> set xs \<and> occ s \<and> key s = k"
proof
  assume "s \<in> set xs \<and> occ s \<and> key s = k"
  then obtain i where "i < length xs" "xs ! i = s" "occ s" "key s = k"
    by (auto simp: in_set_conv_nth)
  with slot_lookup_nth [OF assms, of i] show "slot_lookup occ key xs k = Some s" by simp
qed (auto dest: slot_lookup_SomeD)

locale slot_table =
  fixes occ :: "'s \<Rightarrow> bool"
    and key :: "'s \<Rightarrow> 'k"
    and release :: "'s \<Rightarrow> 's"
  assumes release_free: "\<not> occ (release s)"
begin

lemma put_distinct:
  assumes "slot_distinct occ key xs" "i < length xs"
    and "\<And>j. j < length xs \<Longrightarrow> j \<noteq> i \<Longrightarrow> occ (xs ! j) \<Longrightarrow> occ s \<Longrightarrow> key (xs ! j) \<noteq> key s"
  shows "slot_distinct occ key (xs[i := s])"
  unfolding slot_distinct_def
proof (intro allI impI)
  fix a b
  assume *: "a < length (xs[i := s])" "b < length (xs[i := s])"
    "occ (xs[i := s] ! a) \<and> occ (xs[i := s] ! b) \<and> key (xs[i := s] ! a) = key (xs[i := s] ! b)"
  show "a = b"
  proof (rule ccontr)
    assume "a \<noteq> b"
    then consider "a = i" "b \<noteq> i" | "a \<noteq> i" "b = i" | "a \<noteq> i" "b \<noteq> i" by blast
    then show False
    proof cases
      case 1
      with * assms(2) assms(3) [of b] show ?thesis by simp
    next
      case 2
      with * assms(2) assms(3) [of a] show ?thesis by simp
    next
      case 3
      with * \<open>a \<noteq> b\<close> slot_distinctD [OF assms(1), of a b] show ?thesis by simp
    qed
  qed
qed

lemma release_distinct:
  assumes "slot_distinct occ key xs" "i < length xs"
  shows "slot_distinct occ key (xs[i := release (xs ! i)])"
  by (rule put_distinct [OF assms]) (simp add: release_free)

lemma lookup_put:
  assumes d: "slot_distinct occ key xs" and i: "i < length xs" and s: "occ s"
    and other: "\<And>j. j < length xs \<Longrightarrow> j \<noteq> i \<Longrightarrow> occ (xs ! j) \<Longrightarrow> key (xs ! j) \<noteq> key s"
  shows "slot_lookup occ key (xs[i := s]) k =
    (if k = key s then Some s
     else if occ (xs ! i) \<and> key (xs ! i) = k then None
     else slot_lookup occ key xs k)"
proof (rule option_eqI)
  fix t
  have d': "slot_distinct occ key (xs[i := s])"
    by (rule put_distinct [OF d i other])
  have mem: "t \<in> set (xs[i := s]) \<longleftrightarrow> t = s \<or> (\<exists>j < length xs. j \<noteq> i \<and> t = xs ! j)"
    using i by (auto simp: in_set_conv_nth nth_list_update)
  have new: "slot_lookup occ key (xs[i := s]) k = Some t \<longleftrightarrow>
      (t = s \<or> (\<exists>j < length xs. j \<noteq> i \<and> t = xs ! j)) \<and> occ t \<and> key t = k"
    by (simp add: slot_lookup_iff [OF d'] mem)
  consider "k = key s" | "k \<noteq> key s" "occ (xs ! i)" "key (xs ! i) = k"
    | "k \<noteq> key s" "\<not> (occ (xs ! i) \<and> key (xs ! i) = k)" by blast
  then show "slot_lookup occ key (xs[i := s]) k = Some t \<longleftrightarrow>
    (if k = key s then Some s
     else if occ (xs ! i) \<and> key (xs ! i) = k then None
     else slot_lookup occ key xs k) = Some t"
  proof cases
    case 1
    then show ?thesis unfolding new using s other by auto
  next
    case 2
    then have "\<not> (j < length xs \<and> j \<noteq> i \<and> occ (xs ! j) \<and> key (xs ! j) = k)" for j
      using slot_distinctD [OF d _ i, of j] by auto
    with 2 show ?thesis unfolding new by auto
  next
    case 3
    then show ?thesis
      unfolding new using slot_lookup_iff [OF d, of k t] by (auto simp: in_set_conv_nth)
  qed
qed

lemma lookup_release_where:
  assumes d: "slot_distinct occ key xs"
  shows "slot_lookup occ key (map (\<lambda>s. if P s then release s else s) xs) k =
    (case slot_lookup occ key xs k of
       None \<Rightarrow> None | Some s \<Rightarrow> if P s then None else Some s)"
proof -
  let ?f = "\<lambda>s. if P s then release s else s"
  have d': "slot_distinct occ key (map ?f xs)"
    using d release_free unfolding slot_distinct_def by (simp split: if_splits)
  have eq: "slot_lookup occ key (map ?f xs) k = Some t \<longleftrightarrow>
      slot_lookup occ key xs k = Some t \<and> \<not> P t" for t
    unfolding slot_lookup_iff [OF d'] slot_lookup_iff [OF d]
    using release_free by (auto split: if_splits)
  show ?thesis
    by (rule option_eqI) (auto simp: eq split: option.splits)
qed

lemma release_where_distinct:
  "slot_distinct occ key xs \<Longrightarrow>
   slot_distinct occ key (map (\<lambda>s. if P s then release s else s) xs)"
  using release_free unfolding slot_distinct_def by (simp split: if_splits)

lemma count_release_where:
  "slot_count occ (map (\<lambda>s. if P s then release s else s) xs) +
     length (filter (\<lambda>s. occ s \<and> P s) xs) = slot_count occ xs"
  using release_free by (induction xs) (auto simp: slot_count_def)

lemma lookup_release:
  assumes d: "slot_distinct occ key xs" and i: "i < length xs" and o: "occ (xs ! i)"
  shows "slot_lookup occ key (xs[i := release (xs ! i)]) k =
    (if k = key (xs ! i) then None else slot_lookup occ key xs k)"
proof -
  have upd: "xs[i := release (xs ! i)] =
      map (\<lambda>s. if occ s \<and> key s = key (xs ! i) then release s else s) xs"
    by (rule nth_equalityI)
      (use d i o in \<open>auto simp: nth_list_update dest: slot_distinctD\<close>)
  show ?thesis
    unfolding upd lookup_release_where [OF d]
    using slot_lookup_nth [OF d i o] by (auto split: option.splits dest: slot_lookup_SomeD)
qed

end

end
