(* ===== verification/Contention.thy ===== *)
theory Contention
  imports Config Messages Slots "HOL-Library.Multiset"
begin

text \<open>
  Delayed forwarding: \<open>src/lora/contention.h\<close> and \<open>src/lora/contention.c\<close>. The pool is an
  array of slots, each with a delayable work item of the kernel (a parameter). The mutex
  makes \<open>schedule\<close>, \<open>cancel\<close> and the first half of the work handler atomic; the handler
  publishes after it has released the lock. Abstractly the pool is the multiset of
  messages waiting to be forwarded. The theory relates each operation to that multiset,
  accounts for every message over all interleavings of receive thread and work queue, and
  characterises the delay.
\<close>

definition TS_CONTENTION_POOL_SIZE :: nat where
  "TS_CONTENTION_POOL_SIZE = 32"

section \<open>State and operations\<close>

record 'w ts_contention_slot =
  ct_work :: 'w
  ct_msg :: ts_msg_lora_outgoing
  ct_src :: uint16_t
  ct_msg_id :: uint32_t
  ct_occupied :: bool

record 'w contention_state =
  pool :: "'w ts_contention_slot list"
  pool_initialized :: bool

definition find_free_slot :: "'w ts_contention_slot list \<Rightarrow> nat option" where
  "find_free_slot p = first_index (\<lambda>s. \<not> ct_occupied s) p"

definition find_slot_by_msg :: "uint16_t \<Rightarrow> uint32_t \<Rightarrow> 'w ts_contention_slot list \<Rightarrow> nat option" where
  "find_slot_by_msg src msg_id p =
     first_index (\<lambda>s. ct_occupied s \<and> ct_src s = src \<and> ct_msg_id s = msg_id) p"

text \<open>The locked part of the work handler for slot \<open>i\<close>: the message it takes out, if any.\<close>

definition contention_claim ::
  "nat \<Rightarrow> 'w contention_state \<Rightarrow> ts_msg_lora_outgoing option \<times> 'w contention_state" where
  "contention_claim i st =
    (let slot = pool st ! i in
     if \<not> ct_occupied slot then (None, st)
     else (Some (ct_msg slot), st\<lparr>pool := (pool st)[i := slot\<lparr>ct_occupied := False\<rparr>]\<rparr>))"

text \<open>
  The whole handler. \<open>pub\<close> is \<open>zbus_chan_pub\<close> on the outgoing channel, \<open>'z\<close> the state of
  the bus; its result is only logged.
\<close>

definition ts_contention_work_handler ::
  "(ts_msg_lora_outgoing \<Rightarrow> 'z \<Rightarrow> int \<times> 'z) \<Rightarrow> nat \<Rightarrow> 'w contention_state \<times> 'z \<Rightarrow> 'w contention_state \<times> 'z" where
  "ts_contention_work_handler pub i s =
    (case s of (st, z) \<Rightarrow>
     case contention_claim i st of
       (None, st) \<Rightarrow> (st, z)
     | (Some msg_copy, st) \<Rightarrow> (st, snd (pub msg_copy z)))"

text \<open>The body of the loop in \<open>ts_contention_init\<close>, then the whole function.\<close>

definition contention_init_slot :: "'w k_work_api \<Rightarrow> 'w contention_state \<Rightarrow> nat \<Rightarrow> 'w contention_state" where
  "contention_init_slot K st i =
    (let slot = pool st ! i;
         w = (if pool_initialized st then k_work_cancel_delayable_sync K (ct_work slot) else ct_work slot);
         w = k_work_init_delayable K
     in st\<lparr>pool := (pool st)[i := slot\<lparr>ct_work := w, ct_occupied := False\<rparr>]\<rparr>)"

definition ts_contention_init :: "'w k_work_api \<Rightarrow> 'w contention_state \<Rightarrow> 'w contention_state" where
  "ts_contention_init K st =
    (foldl (contention_init_slot K) st [0..<TS_CONTENTION_POOL_SIZE])\<lparr>pool_initialized := True\<rparr>"

text \<open>
  \<open>offset\<close> and \<open>range\<close> are 32-bit signed; their product with and quotient by unsigned
  operands are computed in unsigned 32-bit arithmetic, as C converts.
\<close>

definition ts_contention_rssi_to_delay_ms :: "ts_config \<Rightarrow> int16_t \<Rightarrow> uint32_t" where
  "ts_contention_rssi_to_delay_ms cfg rssi =
    (if sint rssi \<le> sint (contention_rssi_weak cfg) then contention_delay_min_ms cfg
     else if sint rssi \<ge> sint (contention_rssi_strong cfg) then contention_delay_max_ms cfg
     else let offset = scast rssi - scast (contention_rssi_weak cfg) :: int32_t;
              range = scast (contention_rssi_strong cfg) - scast (contention_rssi_weak cfg) :: int32_t
          in if range = 0 then contention_delay_min_ms cfg
             else (offset * contention_delay_max_ms cfg) div range)"

definition ts_contention_schedule ::
  "'w k_work_api \<Rightarrow> ts_config \<Rightarrow> ts_msg_lora_outgoing \<Rightarrow> int16_t \<Rightarrow> 'w contention_state \<Rightarrow>
   int \<times> 'w contention_state" where
  "ts_contention_schedule K cfg p_msg rssi st =
    (case find_free_slot (pool st) of
       None \<Rightarrow> (-ENOMEM, st)
     | Some i \<Rightarrow>
         (let slot = (pool st ! i)\<lparr> ct_msg := p_msg, ct_src := rh_src (msg_route p_msg),
                        ct_msg_id := rh_msg_id (msg_route p_msg), ct_occupied := True \<rparr>;
              delay_ms = ts_contention_rssi_to_delay_ms cfg rssi;
              slot = slot\<lparr>ct_work := k_work_schedule K delay_ms (ct_work slot)\<rparr>
          in (0, st\<lparr>pool := (pool st)[i := slot]\<rparr>)))"

definition ts_contention_cancel ::
  "'w k_work_api \<Rightarrow> uint16_t \<Rightarrow> uint32_t \<Rightarrow> 'w contention_state \<Rightarrow> int \<times> 'w contention_state" where
  "ts_contention_cancel K src msg_id st =
    (case find_slot_by_msg src msg_id (pool st) of
       None \<Rightarrow> (-ENOENT, st)
     | Some i \<Rightarrow>
         (0, st\<lparr>pool := (pool st)[i := (pool st ! i)\<lparr>
                  ct_work := k_work_cancel_delayable K (ct_work (pool st ! i)),
                  ct_occupied := False\<rparr>]\<rparr>))"

section \<open>The messages waiting to be forwarded\<close>

definition occ_msg :: "'w ts_contention_slot \<Rightarrow> ts_msg_lora_outgoing multiset" where
  "occ_msg s = (if ct_occupied s then {#ct_msg s#} else {#})"

definition pending :: "'w contention_state \<Rightarrow> ts_msg_lora_outgoing multiset" where
  "pending st = sum_list (map occ_msg (pool st))"

text \<open>The slot's copies of source and id are those of the message it holds.\<close>

definition slot_ok :: "'w ts_contention_slot \<Rightarrow> bool" where
  "slot_ok s \<longleftrightarrow> (ct_occupied s \<longrightarrow>
     ct_src s = rh_src (msg_route (ct_msg s)) \<and> ct_msg_id s = rh_msg_id (msg_route (ct_msg s)))"

definition pool_ok :: "'w contention_state \<Rightarrow> bool" where
  "pool_ok st \<longleftrightarrow> length (pool st) = TS_CONTENTION_POOL_SIZE \<and> (\<forall>s \<in> set (pool st). slot_ok s)"

lemma pending_update:
  assumes "i < length p"
  shows "sum_list (map occ_msg (p[i := s])) + occ_msg (p ! i) = sum_list (map occ_msg p) + occ_msg s"
  using assms
proof (induction p arbitrary: i)
  case (Cons x p)
  show ?case
  proof (cases i)
    case 0
    then show ?thesis by (simp add: ac_simps)
  next
    case (Suc j)
    with Cons show ?thesis by (simp add: add.assoc)
  qed
qed simp

lemma pending_put:
  assumes "i < length (pool st)"
  shows "pending (st\<lparr>pool := (pool st)[i := s]\<rparr>) + occ_msg (pool st ! i) = pending st + occ_msg s"
  using pending_update [OF assms] by (simp add: pending_def)

lemma pool_ok_put [inv_intros]:
  "pool_ok st \<Longrightarrow> slot_ok s \<Longrightarrow> pool_ok (st\<lparr>pool := (pool st)[i := s]\<rparr>)"
  by (auto simp: pool_ok_def dest!: set_update_subset_insert [THEN subsetD])

text \<open>The three atomic operations on the multiset.\<close>

lemma schedule_cases:
  obtains (full) "\<forall>s \<in> set (pool st). ct_occupied s" "ts_contention_schedule K cfg m rssi st = (-ENOMEM, st)"
  | (slot) i s where "i < length (pool st)" "\<not> ct_occupied (pool st ! i)" "ct_occupied s" "ct_msg s = m"
      "slot_ok s" "ct_work s = k_work_schedule K (ts_contention_rssi_to_delay_ms cfg rssi) (ct_work (pool st ! i))"
      "ts_contention_schedule K cfg m rssi st = (0, st\<lparr>pool := (pool st)[i := s]\<rparr>)"
proof (cases "find_free_slot (pool st)")
  case None
  then have "\<forall>s \<in> set (pool st). ct_occupied s" by (simp add: find_free_slot_def loop_simps)
  with None show ?thesis by (intro full) (simp_all add: ts_contention_schedule_def)
next
  case (Some i)
  from first_index_SomeD [OF Some [unfolded find_free_slot_def]]
  have i: "i < length (pool st)" "\<not> ct_occupied (pool st ! i)" by auto
  show ?thesis
    by (rule slot [OF i, of "(pool st ! i)\<lparr> ct_msg := m, ct_src := rh_src (msg_route m),
          ct_msg_id := rh_msg_id (msg_route m), ct_occupied := True,
          ct_work := k_work_schedule K (ts_contention_rssi_to_delay_ms cfg rssi) (ct_work (pool st ! i)) \<rparr>"])
      (simp_all add: slot_ok_def ts_contention_schedule_def Some Let_def)
qed

lemma cancel_cases:
  obtains (none) "\<forall>s \<in> set (pool st). ct_occupied s \<longrightarrow> \<not> (ct_src s = src \<and> ct_msg_id s = mid)"
      "ts_contention_cancel K src mid st = (-ENOENT, st)"
  | (slot) i s where "i < length (pool st)" "ct_occupied (pool st ! i)" "\<not> ct_occupied s"
      "ct_src (pool st ! i) = src" "ct_msg_id (pool st ! i) = mid"
      "ct_work s = k_work_cancel_delayable K (ct_work (pool st ! i))"
      "ts_contention_cancel K src mid st = (0, st\<lparr>pool := (pool st)[i := s]\<rparr>)"
proof (cases "find_slot_by_msg src mid (pool st)")
  case None
  then have "\<forall>s \<in> set (pool st). ct_occupied s \<longrightarrow> \<not> (ct_src s = src \<and> ct_msg_id s = mid)"
    by (simp add: find_slot_by_msg_def loop_simps)
  with None show ?thesis by (intro none) (simp_all add: ts_contention_cancel_def)
next
  case (Some i)
  from first_index_SomeD [OF Some [unfolded find_slot_by_msg_def]]
  have i: "i < length (pool st)" "ct_occupied (pool st ! i)" "ct_src (pool st ! i) = src"
    "ct_msg_id (pool st ! i) = mid" by auto
  show ?thesis
    by (rule slot [OF i(1,2) _ i(3,4), of "(pool st ! i)\<lparr>
          ct_work := k_work_cancel_delayable K (ct_work (pool st ! i)), ct_occupied := False\<rparr>"])
      (simp_all add: ts_contention_cancel_def Some)
qed

lemma claim_cases:
  obtains (free) "\<not> ct_occupied (pool st ! i)" "contention_claim i st = (None, st)"
  | (slot) s where "ct_occupied (pool st ! i)" "\<not> ct_occupied s" "ct_work s = ct_work (pool st ! i)"
      "contention_claim i st = (Some (ct_msg (pool st ! i)), st\<lparr>pool := (pool st)[i := s]\<rparr>)"
proof (cases "ct_occupied (pool st ! i)")
  case True
  then show ?thesis
    by (intro slot [of "(pool st ! i)\<lparr>ct_occupied := False\<rparr>"]) (simp_all add: contention_claim_def Let_def)
next
  case False
  then show ?thesis by (intro free) (simp_all add: contention_claim_def Let_def)
qed

lemma free_slot_ok: "\<not> ct_occupied s \<Longrightarrow> slot_ok s"
  by (simp add: slot_ok_def)

lemma schedule_pending:
  assumes "pool_ok st" "ts_contention_schedule K cfg m rssi st = (ret, st')"
  shows "pool_ok st' \<and>
    (if \<forall>s \<in> set (pool st). ct_occupied s then ret = -ENOMEM \<and> st' = st
     else ret = 0 \<and> pending st' = add_mset m (pending st))"
proof (cases rule: schedule_cases [of st K cfg m rssi])
  case full
  with assms show ?thesis by simp
next
  case (slot i s)
  with assms(2) have st': "ret = 0" "st' = st\<lparr>pool := (pool st)[i := s]\<rparr>" by simp_all
  from slot have "\<not> (\<forall>s \<in> set (pool st). ct_occupied s)" by auto
  with st' slot pending_put [OF slot(1), of s] pool_ok_put [OF assms(1)] show ?thesis
    by (simp add: occ_msg_def)
qed

lemma size_pending:
  assumes "pool_ok st"
  shows "size (pending st) = slot_count ct_occupied (pool st)" "size (pending st) \<le> TS_CONTENTION_POOL_SIZE"
    "size (pending st) = TS_CONTENTION_POOL_SIZE \<longleftrightarrow> (\<forall>s \<in> set (pool st). ct_occupied s)"
proof -
  have "size (sum_list (map occ_msg p)) = slot_count ct_occupied p"
    for p :: "'a ts_contention_slot list"
    by (induction p) (simp_all add: occ_msg_def slot_count_def)
  then show c: "size (pending st) = slot_count ct_occupied (pool st)" by (simp add: pending_def)
  have l: "length (pool st) = TS_CONTENTION_POOL_SIZE" using assms by (simp add: pool_ok_def)
  show "size (pending st) \<le> TS_CONTENTION_POOL_SIZE"
    using slot_count_le [of ct_occupied "pool st"] c l by simp
  show "size (pending st) = TS_CONTENTION_POOL_SIZE \<longleftrightarrow> (\<forall>s \<in> set (pool st). ct_occupied s)"
    using slot_count_all [of ct_occupied "pool st"] c l by simp
qed

lemma scheduled_slot:
  assumes "pool_ok st" "size (pending st) < TS_CONTENTION_POOL_SIZE"
  shows "\<exists>i < TS_CONTENTION_POOL_SIZE. ct_occupied (pool (snd (ts_contention_schedule K cfg m rssi st)) ! i) \<and>
    ct_msg (pool (snd (ts_contention_schedule K cfg m rssi st)) ! i) = m"
proof (cases rule: schedule_cases [of st K cfg m rssi])
  case full
  with assms size_pending(3) [OF assms(1)] show ?thesis by simp
next
  case (slot i s)
  with assms(1) show ?thesis by (intro exI [of _ i]) (simp add: pool_ok_def)
qed

lemma pending_iff: "m \<in># pending st \<longleftrightarrow> (\<exists>s \<in> set (pool st). ct_occupied s \<and> ct_msg s = m)"
proof -
  have "m \<in># sum_list (map occ_msg p) \<longleftrightarrow> (\<exists>s \<in> set p. ct_occupied s \<and> ct_msg s = m)"
    for p :: "'a ts_contention_slot list"
    by (induction p) (auto simp: occ_msg_def)
  then show ?thesis by (simp add: pending_def)
qed

lemma unoccupied_pending: "\<forall>s \<in> set (pool st). \<not> ct_occupied s \<Longrightarrow> pending st = {#}"
  by (metis multiset_nonemptyE pending_iff)

definition msg_key :: "ts_msg_lora_outgoing \<Rightarrow> uint16_t \<times> uint32_t" where
  "msg_key m = (rh_src (msg_route m), rh_msg_id (msg_route m))"

lemma cancel_pending:
  assumes "pool_ok st" "ts_contention_cancel K src mid st = (ret, st')"
  shows "pool_ok st' \<and>
    (if \<exists>m. m \<in># pending st \<and> msg_key m = (src, mid)
     then ret = 0 \<and> (\<exists>m. msg_key m = (src, mid) \<and> pending st = add_mset m (pending st'))
     else ret = -ENOENT \<and> st' = st)"
proof (cases rule: cancel_cases [of st src mid K])
  case none
  with assms have "\<not> (\<exists>m. m \<in># pending st \<and> msg_key m = (src, mid))"
    by (auto simp: pending_iff msg_key_def pool_ok_def slot_ok_def)
  with none assms show ?thesis by simp
next
  case (slot i s)
  with assms(2) have st': "ret = 0" "st' = st\<lparr>pool := (pool st)[i := s]\<rparr>" by simp_all
  let ?m = "ct_msg (pool st ! i)"
  have "slot_ok (pool st ! i)" using assms(1) slot(1) by (simp add: pool_ok_def)
  with slot have k: "msg_key ?m = (src, mid)" by (simp add: slot_ok_def msg_key_def)
  moreover have "?m \<in># pending st" using slot by (auto simp: pending_iff)
  moreover have "pending st = add_mset ?m (pending st')"
    using pending_put [OF slot(1), of s] slot st' by (simp add: occ_msg_def)
  ultimately show ?thesis using st' pool_ok_put [OF assms(1) free_slot_ok [OF slot(3)]] by auto
qed

lemma claim_pending:
  assumes "pool_ok st" "i < TS_CONTENTION_POOL_SIZE" "contention_claim i st = (r, st')"
  shows "pool_ok st' \<and>
    (case r of None \<Rightarrow> st' = st | Some m \<Rightarrow> pending st = add_mset m (pending st'))"
proof (cases rule: claim_cases [of st i])
  case free
  with assms show ?thesis by simp
next
  case (slot s)
  have "i < length (pool st)" using assms(1,2) by (simp add: pool_ok_def)
  with slot assms(3) pending_put [of i st s] pool_ok_put [OF assms(1) free_slot_ok [OF slot(2)]]
  show ?thesis by (auto simp: occ_msg_def)
qed

lemma init_pool:
  assumes "length (pool st) = TS_CONTENTION_POOL_SIZE"
  shows "pool (ts_contention_init K st) =
    map (\<lambda>s. s\<lparr>ct_work := k_work_init_delayable K, ct_occupied := False\<rparr>) (pool st)"
proof -
  let ?f = "\<lambda>s. s\<lparr>ct_work := k_work_init_delayable K, ct_occupied := False\<rparr>"
  have "pool (foldl (contention_init_slot K) st is) = foldl (\<lambda>p i. p[i := ?f (p ! i)]) (pool st) is" for "is"
    by (induction "is" arbitrary: st) (simp_all add: contention_init_slot_def Let_def)
  with foldl_update_map [of 32 "pool st" ?f] assms show ?thesis
    by (simp add: ts_contention_init_def TS_CONTENTION_POOL_SIZE_def)
qed

lemma init_pool_ok:
  assumes "length (pool st) = TS_CONTENTION_POOL_SIZE"
  shows "pool_ok (ts_contention_init K st)" "pending (ts_contention_init K st) = {#}"
proof -
  show "pool_ok (ts_contention_init K st)"
    using assms by (auto simp: pool_ok_def init_pool free_slot_ok)
  show "pending (ts_contention_init K st) = {#}"
    by (rule unoccupied_pending) (auto simp: init_pool [OF assms])
qed

section \<open>The pool as an interface\<close>

text \<open>
  What the receive task and the work queue rely on: over the multiset of waiting messages,
  scheduling adds one unless the pool is full, cancelling removes at most one with the given
  key, and the handler of a slot takes out the message it returns.
\<close>

locale pending_pool =
  fixes ok :: "'p \<Rightarrow> bool"
    and bag :: "'p \<Rightarrow> 'm multiset"
    and cap :: nat
    and key :: "'m \<Rightarrow> 'i"
    and sched :: "'m \<Rightarrow> 'p \<Rightarrow> int \<times> 'p"
    and cancel :: "'i \<Rightarrow> 'p \<Rightarrow> int \<times> 'p"
    and claim :: "nat \<Rightarrow> 'p \<Rightarrow> 'm option \<times> 'p"
  assumes bounded: "ok p \<Longrightarrow> size (bag p) \<le> cap"
    and sched_bag: "ok p \<Longrightarrow> ok (snd (sched m p)) \<and>
      bag (snd (sched m p)) = (if size (bag p) < cap then add_mset m (bag p) else bag p)"
    and cancel_bag: "ok p \<Longrightarrow> ok (snd (cancel k p)) \<and>
      (bag (snd (cancel k p)) = bag p \<or> (\<exists>m. key m = k \<and> bag p = add_mset m (bag (snd (cancel k p)))))"
    and claim_bag: "ok p \<Longrightarrow> i < cap \<Longrightarrow> ok (snd (claim i p)) \<and>
      (case fst (claim i p) of None \<Rightarrow> bag (snd (claim i p)) = bag p
       | Some m \<Rightarrow> bag p = add_mset m (bag (snd (claim i p))))"
begin

text \<open>The sum of a cost over the waiting messages.\<close>

definition weight :: "('m \<Rightarrow> nat) \<Rightarrow> 'p \<Rightarrow> nat" where
  "weight w p = sum_mset (image_mset w (bag p))"

lemma sched_ok: "ok p \<Longrightarrow> ok (snd (sched m p))"
  and cancel_ok: "ok p \<Longrightarrow> ok (snd (cancel k p))"
  and claim_ok: "ok p \<Longrightarrow> i < cap \<Longrightarrow> ok (snd (claim i p))"
  using sched_bag cancel_bag claim_bag by blast+

lemma sched_subset: "ok p \<Longrightarrow> bag (snd (sched m p)) \<subseteq># add_mset m (bag p)"
  using sched_bag [of p m] by (simp split: if_splits)

lemma cancel_subset: "ok p \<Longrightarrow> bag (snd (cancel k p)) \<subseteq># bag p"
  using cancel_bag [of p k] by auto

lemma claim_subset: "ok p \<Longrightarrow> i < cap \<Longrightarrow> bag (snd (claim i p)) \<subseteq># bag p"
  using claim_bag [of p i] by (auto split: option.splits)

lemma weight_subset:
  assumes "bag p \<subseteq># B" shows "weight w p \<le> sum_mset (image_mset w B)"
proof -
  from assms obtain C where "B = bag p + C" by (auto simp: subset_mset.le_iff_add)
  then show ?thesis by (simp add: weight_def)
qed

lemma sched_weight: "ok p \<Longrightarrow> weight w (snd (sched m p)) \<le> weight w p + w m"
  using weight_subset [OF sched_subset [of p m], of w] by (simp add: weight_def)

lemma cancel_weight: "ok p \<Longrightarrow> weight w (snd (cancel k p)) \<le> weight w p"
  using weight_subset [OF cancel_subset [of p k], of w] by (simp add: weight_def)

lemma claim_weight:
  "ok p \<Longrightarrow> i < cap \<Longrightarrow> claim i p = (Some m, p') \<Longrightarrow> weight w p = w m + weight w p'"
  using claim_bag [of p i] by (simp add: weight_def)

end

interpretation fwd: pending_pool pool_ok pending TS_CONTENTION_POOL_SIZE msg_key
    "\<lambda>m. ts_contention_schedule K cfg m rssi" "\<lambda>k. ts_contention_cancel K (fst k) (snd k)" contention_claim
  for K cfg rssi
proof unfold_locales
  fix p :: "'a contention_state" and m k and i :: nat
  assume ok: "pool_ok p"
  show "size (pending p) \<le> TS_CONTENTION_POOL_SIZE" by (rule size_pending(2) [OF ok])
  show "pool_ok (snd (ts_contention_schedule K cfg m rssi p)) \<and>
    pending (snd (ts_contention_schedule K cfg m rssi p)) =
      (if size (pending p) < TS_CONTENTION_POOL_SIZE then add_mset m (pending p) else pending p)"
    using schedule_pending [OF ok prod.collapse [symmetric], of K cfg m rssi] size_pending(2,3) [OF ok]
    by (auto simp: le_less split: if_splits)
  show "pool_ok (snd (ts_contention_cancel K (fst k) (snd k) p)) \<and>
    (pending (snd (ts_contention_cancel K (fst k) (snd k) p)) = pending p \<or>
      (\<exists>m. msg_key m = k \<and> pending p = add_mset m (pending (snd (ts_contention_cancel K (fst k) (snd k) p)))))"
    using cancel_pending [OF ok prod.collapse [symmetric], of K "fst k" "snd k"] 
    by (auto split: if_splits)
  assume i: "i < TS_CONTENTION_POOL_SIZE"
  show "pool_ok (snd (contention_claim i p)) \<and>
    (case fst (contention_claim i p) of None \<Rightarrow> pending (snd (contention_claim i p)) = pending p
     | Some m \<Rightarrow> pending p = add_mset m (pending (snd (contention_claim i p))))"
    using claim_pending [OF ok i prod.collapse [symmetric]] by (auto split: option.splits)
qed

text \<open>(C15) The pool implements a bounded multiset of pending forwards. Scheduling adds exactly the
  given message, or reports \<open>-ENOMEM\<close> and changes nothing when all 32 slots are taken;
  cancelling removes exactly one pending message with the given source and id, or reports
  \<open>-ENOENT\<close> and changes nothing when there is none; the work handler of a slot publishes
  and removes the message of that slot, or does nothing when the slot was cancelled.\<close>

theorem contention_pool_refines_multiset:
  assumes "pool_ok st" "i < TS_CONTENTION_POOL_SIZE"
  shows "(let (ret, st') = ts_contention_schedule K cfg m rssi st in pool_ok st' \<and>
      (if size (pending st) = TS_CONTENTION_POOL_SIZE then ret = -ENOMEM \<and> st' = st
       else ret = 0 \<and> pending st' = add_mset m (pending st))) \<and>
    (let (ret, st') = ts_contention_cancel K src mid st in pool_ok st' \<and>
      (if \<exists>m. m \<in># pending st \<and> msg_key m = (src, mid)
       then ret = 0 \<and> (\<exists>m. msg_key m = (src, mid) \<and> pending st = add_mset m (pending st'))
       else ret = -ENOENT \<and> st' = st)) \<and>
    (let (st', z') = ts_contention_work_handler pub i (st, z) in pool_ok st' \<and>
      (if ct_occupied (pool st ! i)
       then z' = snd (pub (ct_msg (pool st ! i)) z) \<and>
            pending st = add_mset (ct_msg (pool st ! i)) (pending st')
       else z' = z \<and> st' = st))"
proof (intro conjI)
  show "let (ret, st') = ts_contention_schedule K cfg m rssi st in pool_ok st' \<and>
      (if size (pending st) = TS_CONTENTION_POOL_SIZE then ret = -ENOMEM \<and> st' = st
       else ret = 0 \<and> pending st' = add_mset m (pending st))"
    unfolding size_pending(3) [OF assms(1)] using schedule_pending [OF assms(1), of K cfg m rssi]
    by (simp add: Let_def split: prod.split)
  show "let (ret, st') = ts_contention_cancel K src mid st in pool_ok st' \<and>
      (if \<exists>m. m \<in># pending st \<and> msg_key m = (src, mid)
       then ret = 0 \<and> (\<exists>m. msg_key m = (src, mid) \<and> pending st = add_mset m (pending st'))
       else ret = -ENOENT \<and> st' = st)"
    using cancel_pending [OF assms(1), of K src mid] by (simp add: Let_def split: prod.split)
  show "let (st', z') = ts_contention_work_handler pub i (st, z) in pool_ok st' \<and>
      (if ct_occupied (pool st ! i)
       then z' = snd (pub (ct_msg (pool st ! i)) z) \<and>
            pending st = add_mset (ct_msg (pool st ! i)) (pending st')
       else z' = z \<and> st' = st)"
    using assms claim_pending [OF assms, of "fst (contention_claim i st)" "snd (contention_claim i st)"]
    by (cases rule: claim_cases [of st i]) (simp_all add: ts_contention_work_handler_def)
qed

text \<open>An unused pool, as at power-up, for the witnesses.\<close>

definition blank_pool :: "uint32_t option contention_state" where
  "blank_pool =
    \<lparr> pool = replicate TS_CONTENTION_POOL_SIZE
        \<lparr>ct_work = None, ct_msg = zero_msg, ct_src = 0, ct_msg_id = 0, ct_occupied = False\<rparr>,
      pool_initialized = False \<rparr>"

lemma blank_pool_length: "length (pool blank_pool) = TS_CONTENTION_POOL_SIZE"
  by (simp add: blank_pool_def)

lemma blank_pool_ok: "pool_ok blank_pool" "pending blank_pool = {#}"
proof -
  show "pool_ok blank_pool" by (simp add: blank_pool_def pool_ok_def slot_ok_def)
  show "pending blank_pool = {#}" by (rule unoccupied_pending) (simp add: blank_pool_def)
qed

theorem contention_pool_refines_multiset_witness:
  "fst (ts_contention_cancel ref_k_work 1 2 blank_pool) = -ENOENT \<and>
   fst (ts_contention_schedule ref_k_work TS_CONFIG_DEFAULTS zero_msg (-60) blank_pool) = 0"
  using contention_pool_refines_multiset [OF blank_pool_ok(1), of 0 ref_k_work TS_CONFIG_DEFAULTS
      zero_msg "-60" 1 2 "\<lambda>_ z. (0, z)" "()"]
  by (simp add: TS_CONTENTION_POOL_SIZE_def blank_pool_ok(2) split: prod.splits)

section \<open>All interleavings of receive thread and work queue\<close>

text \<open>
  \<open>fw_jobs\<close> are the handlers the work queue has started for a slot and that have not yet
  taken the lock, \<open>fw_inflight\<close> the messages taken out of a slot and not yet published; the
  last three components record what was accepted, cancelled and handed to the bus.
\<close>

record 'w fw_state =
  fw_pool :: "'w contention_state"
  fw_jobs :: "nat multiset"
  fw_inflight :: "ts_msg_lora_outgoing multiset"
  fw_accepted :: "ts_msg_lora_outgoing multiset"
  fw_cancelled :: "ts_msg_lora_outgoing multiset"
  fw_published :: "ts_msg_lora_outgoing multiset"

definition fw_init :: "'w k_work_api \<Rightarrow> 'w contention_state \<Rightarrow> 'w fw_state" where
  "fw_init K st = \<lparr> fw_pool = ts_contention_init K st, fw_jobs = {#}, fw_inflight = {#},
     fw_accepted = {#}, fw_cancelled = {#}, fw_published = {#} \<rparr>"

inductive fw_step :: "'w k_work_api \<Rightarrow> ('w \<Rightarrow> uint32_t option) \<Rightarrow> 'w fw_state \<Rightarrow> 'w fw_state \<Rightarrow> bool"
  for K waiting where
  schedule: "ts_contention_schedule K cfg m rssi (fw_pool s) = (ret, p) \<Longrightarrow>
    fw_step K waiting s (s\<lparr>fw_pool := p,
      fw_accepted := (if ret = 0 then add_mset m (fw_accepted s) else fw_accepted s)\<rparr>)"
| cancel: "ts_contention_cancel K src mid (fw_pool s) = (ret, p) \<Longrightarrow>
    fw_step K waiting s (s\<lparr>fw_pool := p,
      fw_cancelled := fw_cancelled s + (pending (fw_pool s) - pending p)\<rparr>)"
| expire: "i < TS_CONTENTION_POOL_SIZE \<Longrightarrow> slot = pool (fw_pool s) ! i \<Longrightarrow>
    waiting (ct_work slot) \<noteq> None \<Longrightarrow> waiting w = None \<Longrightarrow>
    fw_step K waiting s (s\<lparr>fw_pool := (fw_pool s)\<lparr>pool := (pool (fw_pool s))[i := slot\<lparr>ct_work := w\<rparr>]\<rparr>,
      fw_jobs := add_mset i (fw_jobs s)\<rparr>)"
| claim: "fw_jobs s = add_mset i js \<Longrightarrow> contention_claim i (fw_pool s) = (r, p) \<Longrightarrow>
    fw_step K waiting s (s\<lparr>fw_pool := p, fw_jobs := js,
      fw_inflight := fw_inflight s + (case r of None \<Rightarrow> {#} | Some m \<Rightarrow> {#m#})\<rparr>)"
| publish: "fw_inflight s = add_mset m ms \<Longrightarrow>
    fw_step K waiting s (s\<lparr>fw_inflight := ms, fw_published := add_mset m (fw_published s)\<rparr>)"

inductive_cases fw_stepE: "fw_step K waiting s s'"

definition fw_balanced :: "'w fw_state \<Rightarrow> bool" where
  "fw_balanced s \<longleftrightarrow>
     fw_accepted s = fw_published s + fw_inflight s + fw_cancelled s + pending (fw_pool s)"

text \<open>No forward is stranded: a taken slot has its timer running or its handler started.\<close>

definition timed :: "('w \<Rightarrow> uint32_t option) \<Rightarrow> 'w ts_contention_slot list \<Rightarrow> nat multiset \<Rightarrow> bool" where
  "timed waiting p js \<longleftrightarrow>
     (\<forall>i < length p. ct_occupied (p ! i) \<longrightarrow> waiting (ct_work (p ! i)) \<noteq> None \<or> i \<in># js)"

lemma timed_put:
  assumes "timed waiting p js" "j < length p" "ct_occupied t \<Longrightarrow> waiting (ct_work t) \<noteq> None \<or> j \<in># js'"
    and "\<And>i. i \<in># js \<Longrightarrow> i \<noteq> j \<Longrightarrow> i \<in># js'"
  shows "timed waiting (p[j := t]) js'"
  unfolding timed_def
proof (intro allI impI)
  fix i
  assume i: "i < length (p[j := t])" "ct_occupied (p[j := t] ! i)"
  show "waiting (ct_work (p[j := t] ! i)) \<noteq> None \<or> i \<in># js'"
  proof (cases "i = j")
    case True
    with i assms(3) show ?thesis by simp
  next
    case False
    with i assms(1) have "waiting (ct_work (p ! i)) \<noteq> None \<or> i \<in># js" by (simp add: timed_def)
    with False assms(4) [of i] show ?thesis by auto
  qed
qed

abbreviation fw_timed :: "('w \<Rightarrow> uint32_t option) \<Rightarrow> 'w fw_state \<Rightarrow> bool" where
  "fw_timed waiting s \<equiv> timed waiting (pool (fw_pool s)) (fw_jobs s)"

definition fw_ok :: "'w fw_state \<Rightarrow> bool" where
  "fw_ok s \<longleftrightarrow> pool_ok (fw_pool s) \<and> (\<forall>i \<in># fw_jobs s. i < TS_CONTENTION_POOL_SIZE)"

lemma expire_slot:
  assumes "pool_ok st" "i < TS_CONTENTION_POOL_SIZE"
  shows "pool_ok (st\<lparr>pool := (pool st)[i := (pool st ! i)\<lparr>ct_work := w\<rparr>]\<rparr>)"
    "pending (st\<lparr>pool := (pool st)[i := (pool st ! i)\<lparr>ct_work := w\<rparr>]\<rparr>) = pending st"
proof -
  have i: "i < length (pool st)" using assms by (simp add: pool_ok_def)
  have "slot_ok (pool st ! i)" using assms(1) i by (simp add: pool_ok_def)
  then show "pool_ok (st\<lparr>pool := (pool st)[i := (pool st ! i)\<lparr>ct_work := w\<rparr>]\<rparr>)"
    by (intro pool_ok_put [OF assms(1)]) (simp add: slot_ok_def)
  show "pending (st\<lparr>pool := (pool st)[i := (pool st ! i)\<lparr>ct_work := w\<rparr>]\<rparr>) = pending st"
    using pending_put [OF i, of "(pool st ! i)\<lparr>ct_work := w\<rparr>"]
    by (auto simp: occ_msg_def split: if_splits)
qed

lemma fw_step_ok: "fw_step K waiting s s' \<Longrightarrow> fw_ok s \<Longrightarrow> fw_ok s'"
proof (induction rule: fw_step.induct)
  case (schedule cfg m rssi s ret p)
  then show ?case using schedule_pending [of "fw_pool s"] by (simp add: fw_ok_def)
next
  case (cancel src mid s ret p)
  then show ?case using cancel_pending [of "fw_pool s"] by (simp add: fw_ok_def)
next
  case (expire i slot s w)
  then show ?case using expire_slot(1) [of "fw_pool s" i w] by (auto simp: fw_ok_def)
next
  case (claim s i js r p)
  then show ?case using claim_pending [of "fw_pool s" i r p] by (auto simp: fw_ok_def)
next
  case (publish s m ms)
  then show ?case by (simp add: fw_ok_def)
qed

lemma fw_step_balanced: "fw_step K waiting s s' \<Longrightarrow> fw_ok s \<Longrightarrow> fw_balanced s \<Longrightarrow> fw_balanced s'"
proof (induction rule: fw_step.induct)
  case (schedule cfg m rssi s ret p)
  then show ?case using schedule_pending [of "fw_pool s" K cfg m rssi ret p]
    by (auto simp: fw_ok_def fw_balanced_def split: if_splits)
next
  case (cancel src mid s ret p)
  then show ?case using cancel_pending [of "fw_pool s" K src mid ret p]
    by (auto simp: fw_ok_def fw_balanced_def split: if_splits)
next
  case (expire i slot s w)
  then show ?case using expire_slot(2) [of "fw_pool s" i w] by (simp add: fw_ok_def fw_balanced_def)
next
  case (claim s i js r p)
  then show ?case using claim_pending [of "fw_pool s" i r p]
    by (auto simp: fw_ok_def fw_balanced_def split: option.splits)
next
  case (publish s m ms)
  then show ?case by (simp add: fw_balanced_def)
qed

context k_work
begin

lemma schedule_waits: "waiting (k_work_schedule K ms w) \<noteq> None"
  by (cases "waiting w") (simp_all add: schedule_idle schedule_busy)

lemma fw_step_timed: "fw_step K waiting s s' \<Longrightarrow> fw_ok s \<Longrightarrow> fw_timed waiting s \<Longrightarrow> fw_timed waiting s'"
proof (induction rule: fw_step.induct)
  case (schedule cfg m rssi s ret p)
  show ?case
  proof (cases rule: schedule_cases [of "fw_pool s" K cfg m rssi])
    case full
    with schedule show ?thesis by simp
  next
    case (slot j t)
    with schedule timed_put [OF schedule.prems(2) slot(1), of t] schedule_waits show ?thesis by auto
  qed
next
  case (cancel src mid s ret p)
  show ?case
  proof (cases rule: cancel_cases [of "fw_pool s" src mid K])
    case none
    with cancel show ?thesis by simp
  next
    case (slot j t)
    with cancel timed_put [OF cancel.prems(2) slot(1), of t] show ?thesis by auto
  qed
next
  case (expire i slot s w)
  then have "i < length (pool (fw_pool s))" by (simp add: fw_ok_def pool_ok_def)
  with timed_put [OF expire.prems(2) this] show ?case by simp
next
  case (claim s i js r p)
  then have i: "i < length (pool (fw_pool s))" by (simp add: fw_ok_def pool_ok_def)
  show ?case
  proof (cases rule: claim_cases [of "fw_pool s" i])
    case free
    with claim timed_put [OF claim.prems(2) i, of "pool (fw_pool s) ! i" js] show ?thesis by simp
  next
    case (slot t)
    with claim timed_put [OF claim.prems(2) i, of t js] show ?thesis by auto
  qed
next
  case (publish s m ms)
  then show ?case by simp
qed

end

lemma fw_init_ok:
  assumes "length (pool st) = TS_CONTENTION_POOL_SIZE"
  shows "fw_ok (fw_init K st)" "fw_balanced (fw_init K st)" "fw_timed waiting (fw_init K st)"
  using init_pool_ok [OF assms, of K] assms
  by (simp_all add: fw_ok_def fw_balanced_def timed_def fw_init_def init_pool)

lemma fw_reachable_ok:
  assumes "length (pool st) = TS_CONTENTION_POOL_SIZE" "(fw_step K waiting)\<^sup>*\<^sup>* (fw_init K st) s"
  shows "fw_ok s \<and> fw_balanced s"
  using assms(2)
proof induction
  case base
  show ?case using fw_init_ok [OF assms(1)] by simp
next
  case (step t u)
  then show ?case using fw_step_ok fw_step_balanced by blast
qed

lemma fw_reachable_timed:
  assumes "k_work K waiting" "length (pool st) = TS_CONTENTION_POOL_SIZE" "(fw_step K waiting)\<^sup>*\<^sup>* (fw_init K st) s"
  shows "fw_ok s \<and> fw_timed waiting s"
  using assms(3)
proof induction
  case base
  show ?case using fw_init_ok [OF assms(2)] by simp
next
  case (step t u)
  then show ?case using fw_step_ok k_work.fw_step_timed [OF assms(1)] by blast
qed

text \<open>(C12) Over every interleaving of scheduling, cancelling, timers, handlers and publications:
  each accepted forward is at any moment in exactly one place, published, in flight,
  cancelled or still pending. So no message is published more often than it was accepted,
  and a forward that was cancelled is never published. And none is stranded: a slot that holds
  a pending forward has its timer running, or its handler has been started and has not looked
  at the slot yet.\<close>

theorem contention_accounts_for_every_forward:
  assumes "k_work K waiting" and "length (pool st) = TS_CONTENTION_POOL_SIZE"
    and "(fw_step K waiting)\<^sup>*\<^sup>* (fw_init K st) s"
  shows "fw_accepted s = fw_published s + fw_inflight s + fw_cancelled s + pending (fw_pool s) \<and>
    fw_published s \<subseteq># fw_accepted s - fw_cancelled s \<and>
    size (pending (fw_pool s)) \<le> TS_CONTENTION_POOL_SIZE \<and>
    (\<forall>i < TS_CONTENTION_POOL_SIZE. ct_occupied (pool (fw_pool s) ! i) \<longrightarrow>
       waiting (ct_work (pool (fw_pool s) ! i)) \<noteq> None \<or> i \<in># fw_jobs s)"
proof -
  have "fw_ok s" "fw_balanced s" using fw_reachable_ok [OF assms(2,3)] by simp_all
  with size_pending(2) [of "fw_pool s"] fw_reachable_timed [OF assms] show ?thesis
    by (simp add: fw_balanced_def fw_ok_def pool_ok_def timed_def ac_simps)
qed

text \<open>A run for the witnesses: one forward scheduled.\<close>

definition one_scheduled :: "uint32_t option fw_state" where
  "one_scheduled =
    (let s = fw_init ref_k_work blank_pool in
     s\<lparr>fw_pool := snd (ts_contention_schedule ref_k_work TS_CONFIG_DEFAULTS zero_msg (-60) (fw_pool s)),
       fw_accepted := {#zero_msg#}\<rparr>)"

lemma one_scheduled_reachable:
  "(fw_step ref_k_work (\<lambda>w. w))\<^sup>*\<^sup>* (fw_init ref_k_work blank_pool) one_scheduled"
  "pending (fw_pool one_scheduled) = {#zero_msg#}"
proof -
  let ?s = "fw_init ref_k_work blank_pool"
  obtain ret p where p: "ts_contention_schedule ref_k_work TS_CONFIG_DEFAULTS zero_msg (-60) (fw_pool ?s) = (ret, p)"
    by fastforce
  have free: "\<not> (\<forall>s \<in> set (pool (fw_pool ?s)). ct_occupied s)"
    by (simp add: fw_init_def init_pool [OF blank_pool_length])
      (simp add: blank_pool_def TS_CONTENTION_POOL_SIZE_def)
  have ok: "pool_ok (fw_pool ?s)" "pending (fw_pool ?s) = {#}"
    using init_pool_ok [OF blank_pool_length] by (simp_all add: fw_init_def)
  from schedule_pending [OF ok(1) p] free ok(2) have r: "ret = 0" "pending p = {#zero_msg#}" by simp_all
  have "fw_step ref_k_work (\<lambda>w. w) ?s (?s\<lparr>fw_pool := p, fw_accepted :=
      (if ret = 0 then add_mset zero_msg (fw_accepted ?s) else fw_accepted ?s)\<rparr>)"
    by (rule fw_step.schedule [OF p])
  with r show "(fw_step ref_k_work (\<lambda>w. w))\<^sup>*\<^sup>* (fw_init ref_k_work blank_pool) one_scheduled"
    by (simp add: one_scheduled_def Let_def p) (simp add: fw_init_def r_into_rtranclp)
  show "pending (fw_pool one_scheduled) = {#zero_msg#}"
    using p r by (simp add: one_scheduled_def Let_def)
qed

theorem contention_accounts_for_every_forward_witness:
  "fw_accepted one_scheduled = fw_published one_scheduled + fw_inflight one_scheduled +
     fw_cancelled one_scheduled + pending (fw_pool one_scheduled) \<and>
   (\<exists>i. ct_occupied (pool (fw_pool one_scheduled) ! i) \<and>
     (ct_work (pool (fw_pool one_scheduled) ! i) \<noteq> None \<or> i \<in># fw_jobs one_scheduled))"
proof -
  note c = contention_accounts_for_every_forward [OF ref_k_work.k_work_axioms blank_pool_length one_scheduled_reachable(1)]
  have "length (pool (fw_pool one_scheduled)) = TS_CONTENTION_POOL_SIZE"
    using fw_reachable_ok [OF blank_pool_length one_scheduled_reachable(1)] by (simp add: fw_ok_def pool_ok_def)
  moreover have "zero_msg \<in># pending (fw_pool one_scheduled)" by (simp add: one_scheduled_reachable(2))
  ultimately obtain i where "i < TS_CONTENTION_POOL_SIZE" "ct_occupied (pool (fw_pool one_scheduled) ! i)"
    unfolding pending_iff by (auto simp: in_set_conv_nth)
  with c show ?thesis by blast
qed

section \<open>Every pending forward can still be published\<close>

lemma claim_slot:
  assumes "fw_ok s" "i \<in># fw_jobs s" "ct_occupied (pool (fw_pool s) ! i)"
  shows "\<exists>s'. fw_step K waiting s s' \<and>
    pending (fw_pool s) = add_mset (ct_msg (pool (fw_pool s) ! i)) (pending (fw_pool s')) \<and>
    fw_inflight s' = add_mset (ct_msg (pool (fw_pool s) ! i)) (fw_inflight s) \<and>
    fw_published s' = fw_published s"
proof -
  obtain js where js: "fw_jobs s = add_mset i js" using assms(2) by (metis mset_add)
  obtain p where p: "contention_claim i (fw_pool s) = (Some (ct_msg (pool (fw_pool s) ! i)), p)"
    using assms(3) by (cases rule: claim_cases [of "fw_pool s" i]) auto
  have "i < TS_CONTENTION_POOL_SIZE" using assms(1,2) by (simp add: fw_ok_def)
  with claim_pending [of "fw_pool s" i _ p] p assms(1)
  have "pending (fw_pool s) = add_mset (ct_msg (pool (fw_pool s) ! i)) (pending p)"
    by (simp add: fw_ok_def)
  with fw_step.claim [OF js p, of K waiting] show ?thesis by (intro exI conjI) (assumption, simp_all)
qed

context k_work
begin

lemma take_out_slot:
  assumes "fw_ok s" "fw_timed waiting s" "i < TS_CONTENTION_POOL_SIZE"
    and "ct_occupied (pool (fw_pool s) ! i)"
  shows "\<exists>m s'. (fw_step K waiting)\<^sup>*\<^sup>* s s' \<and> pending (fw_pool s) = add_mset m (pending (fw_pool s')) \<and>
    fw_inflight s' = add_mset m (fw_inflight s) \<and> fw_published s' = fw_published s"
proof (cases "i \<in># fw_jobs s")
  case True
  from claim_slot [OF assms(1) True assms(4), of K waiting] show ?thesis by blast
next
  case False
  let ?slot = "pool (fw_pool s) ! i"
  have len: "i < length (pool (fw_pool s))" using assms(1,3) by (simp add: fw_ok_def pool_ok_def)
  with False assms(2,4) have "waiting (ct_work ?slot) \<noteq> None" unfolding timed_def by blast
  from fw_step.expire [where K = K, OF assms(3) refl this cancel_idle]
  obtain s1 where s1: "fw_step K waiting s s1"
    "s1 = s\<lparr>fw_pool := (fw_pool s)\<lparr>pool := (pool (fw_pool s))[i := ?slot\<lparr>ct_work := k_work_cancel_delayable K (ct_work ?slot)\<rparr>]\<rparr>,
      fw_jobs := add_mset i (fw_jobs s)\<rparr>" by blast
  have ok: "fw_ok s1" by (rule fw_step_ok [OF s1(1) assms(1)])
  have eq: "pending (fw_pool s1) = pending (fw_pool s)"
    using expire_slot(2) [of "fw_pool s" i] assms(1,3) s1(2) by (simp add: fw_ok_def)
  have "i \<in># fw_jobs s1" "ct_occupied (pool (fw_pool s1) ! i)" using s1(2) len assms(4) by simp_all
  from claim_slot [OF ok this, of K waiting] s1 eq show ?thesis
    by simp (meson converse_rtranclp_into_rtranclp r_into_rtranclp)
qed

lemma drain_inflight:
  "\<exists>s'. (fw_step K waiting)\<^sup>*\<^sup>* s s' \<and> fw_pool s' = fw_pool s \<and> fw_jobs s' = fw_jobs s \<and>
     fw_inflight s' = {#} \<and> fw_published s' = fw_published s + fw_inflight s"
proof (induction "fw_inflight s" arbitrary: s)
  case empty
  then show ?case by auto
next
  case (add m ms)
  let ?s = "s\<lparr>fw_inflight := ms, fw_published := add_mset m (fw_published s)\<rparr>"
  have "fw_step K waiting s ?s" using add.hyps(2) by (intro fw_step.publish) simp
  moreover from add.hyps(1) [of ?s] obtain s' where
    "(fw_step K waiting)\<^sup>*\<^sup>* ?s s'" "fw_pool s' = fw_pool s" "fw_jobs s' = fw_jobs s"
    "fw_inflight s' = {#}" "fw_published s' = add_mset m (fw_published s) + ms" by auto
  ultimately show ?case using add.hyps(2) [symmetric]
    by (intro exI [of _ s']) (auto intro: converse_rtranclp_into_rtranclp)
qed

lemma drain:
  assumes "fw_ok s" "fw_timed waiting s"
  shows "\<exists>s'. (fw_step K waiting)\<^sup>*\<^sup>* s s' \<and> pending (fw_pool s') = {#} \<and> fw_inflight s' = {#} \<and>
    fw_published s' = fw_published s + fw_inflight s + pending (fw_pool s)"
  using assms
proof (induction "size (pending (fw_pool s))" arbitrary: s)
  case 0
  with drain_inflight [of s] show ?case by auto
next
  case (Suc n)
  then obtain m0 where "m0 \<in># pending (fw_pool s)" by (metis multiset_nonemptyE nat.distinct(1) size_empty)
  then obtain i where "i < TS_CONTENTION_POOL_SIZE" "ct_occupied (pool (fw_pool s) ! i)"
    using Suc.prems(1) by (auto simp: pending_iff in_set_conv_nth fw_ok_def pool_ok_def)
  from take_out_slot [OF Suc.prems this] obtain m s1 where
    s1: "(fw_step K waiting)\<^sup>*\<^sup>* s s1" "pending (fw_pool s) = add_mset m (pending (fw_pool s1))"
    "fw_inflight s1 = add_mset m (fw_inflight s)" "fw_published s1 = fw_published s" by blast
  from s1(1) have "fw_ok s1 \<and> fw_timed waiting s1"
    by induction (use Suc.prems fw_step_ok fw_step_timed in blast)+
  with Suc.hyps(1) [of s1] Suc.hyps(2) s1(2) obtain s' where
    "(fw_step K waiting)\<^sup>*\<^sup>* s1 s'" "pending (fw_pool s') = {#}" "fw_inflight s' = {#}"
    "fw_published s' = fw_published s1 + fw_inflight s1 + pending (fw_pool s1)" by auto
  with s1 show ?case by (intro exI [of _ s']) (auto intro: rtranclp_trans)
qed

end

text \<open>(C26) No forward gets stuck: in every reachable state each taken slot has its timer running
  or its handler started, so timers, handlers and publications alone can still bring every
  pending and in-flight message onto the bus, each exactly once.\<close>

theorem contention_drains:
  assumes "k_work K waiting" "length (pool st) = TS_CONTENTION_POOL_SIZE"
    and "(fw_step K waiting)\<^sup>*\<^sup>* (fw_init K st) s"
  shows "\<exists>s'. (fw_step K waiting)\<^sup>*\<^sup>* s s' \<and> pending (fw_pool s') = {#} \<and> fw_inflight s' = {#} \<and>
    fw_published s' = fw_published s + fw_inflight s + pending (fw_pool s)"
proof -
  have "fw_ok s \<and> fw_timed waiting s" by (rule fw_reachable_timed [OF assms])
  with k_work.drain [OF assms(1)] show ?thesis by blast
qed

theorem contention_drains_witness:
  "\<exists>s'. (fw_step ref_k_work (\<lambda>w. w))\<^sup>*\<^sup>* one_scheduled s' \<and> zero_msg \<in># fw_published s'"
  using contention_drains [OF ref_k_work.k_work_axioms blank_pool_length one_scheduled_reachable(1)]
    one_scheduled_reachable(2) by auto

section \<open>The delay\<close>

lemma in_range_key:
  assumes "config_in_range cfg" "CONFIG_KEY f lo hi \<in> set config_keys"
  shows "lo \<le> field_val f cfg \<and> field_val f cfg \<le> hi"
proof -
  have "ck_min (CONFIG_KEY f lo hi) = lo" "ck_max (CONFIG_KEY f lo hi) = hi"
    "ck_name (CONFIG_KEY f lo hi) = f" by (simp_all add: CONFIG_KEY_def)
  with assms show ?thesis unfolding config_in_range_def by fastforce
qed

lemma contention_keys:
  "CONFIG_KEY ''contention_delay_min_ms'' 0 60000 \<in> set config_keys"
  "CONFIG_KEY ''contention_delay_max_ms'' 0 60000 \<in> set config_keys"
  "CONFIG_KEY ''contention_rssi_weak'' (-150) 0 \<in> set config_keys"
  "CONFIG_KEY ''contention_rssi_strong'' (-150) 0 \<in> set config_keys"
  unfolding config_keys_def list.set by (rule insertI1 | rule insertI2)+

lemma contention_ranges:
  assumes "config_in_range cfg"
  shows "uint (contention_delay_min_ms cfg) \<le> 60000" "uint (contention_delay_max_ms cfg) \<le> 60000"
    "-150 \<le> sint (contention_rssi_weak cfg)" "sint (contention_rssi_weak cfg) \<le> 0"
    "-150 \<le> sint (contention_rssi_strong cfg)" "sint (contention_rssi_strong cfg) \<le> 0"
  using in_range_key [OF assms contention_keys(1)] in_range_key [OF assms contention_keys(2)]
    in_range_key [OF assms contention_keys(3)] in_range_key [OF assms contention_keys(4)]
  by simp_all

lemma uint_sdiff:
  fixes a b :: int16_t
  assumes "sint b \<le> sint a"
  shows "uint (scast a - scast b :: int32_t) = sint a - sint b"
proof -
  have "(scast a - scast b :: int32_t) = word_of_int (sint a - sint b)"
    by (simp only: scast_eq of_int_diff)
  moreover have "sint a - sint b < 2 ^ 32" using sint_lt [of a] sint_ge [of b] by simp
  ultimately show ?thesis using assms by (simp only: uint_word_of_int) simp
qed

lemma div_less_if_mult:
  assumes "0 < b" "a < c * b"
  shows "a div b < (c :: int)"
proof (rule ccontr)
  assume "\<not> a div b < c"
  with assms(1) have "c * b \<le> a div b * b" by (intro mult_right_mono) simp_all
  moreover have "a div b * b \<le> a"
    using div_mult_mod_eq [of a b] pos_mod_sign [OF assms(1), of a] by linarith
  ultimately show False using assms(2) by simp
qed

lemma interpolated_delay:
  assumes "config_in_range cfg" "sint (contention_rssi_weak cfg) < sint rssi"
    "sint rssi < sint (contention_rssi_strong cfg)"
  shows "uint (ts_contention_rssi_to_delay_ms cfg rssi) =
    (sint rssi - sint (contention_rssi_weak cfg)) * uint (contention_delay_max_ms cfg) div
      (sint (contention_rssi_strong cfg) - sint (contention_rssi_weak cfg))"
proof -
  let ?o = "scast rssi - scast (contention_rssi_weak cfg) :: int32_t"
  let ?r = "scast (contention_rssi_strong cfg) - scast (contention_rssi_weak cfg) :: int32_t"
  note R = contention_ranges [OF assms(1)]
  have o: "uint ?o = sint rssi - sint (contention_rssi_weak cfg)"
    using assms by (intro uint_sdiff) simp
  have r: "uint ?r = sint (contention_rssi_strong cfg) - sint (contention_rssi_weak cfg)"
    using assms by (intro uint_sdiff) simp
  then have "?r \<noteq> 0" using assms by auto
  moreover have "uint ?o * uint (contention_delay_max_ms cfg) < 2 ^ 32"
  proof -
    have "uint ?o * uint (contention_delay_max_ms cfg) \<le> 150 * 60000"
      using R assms o by (intro mult_mono) simp_all
    then show ?thesis by simp
  qed
  ultimately show ?thesis
    using assms o r by (simp add: ts_contention_rssi_to_delay_ms_def Let_def uint_div_distrib
        uint_word_ariths)
qed

lemma interpolated_at_most_max:
  assumes "config_in_range cfg" "sint (contention_rssi_weak cfg) < sint rssi"
    "sint rssi < sint (contention_rssi_strong cfg)"
  shows "ts_contention_rssi_to_delay_ms cfg rssi \<le> contention_delay_max_ms cfg"
proof -
  let ?r = "sint (contention_rssi_strong cfg) - sint (contention_rssi_weak cfg)"
  have "(sint rssi - sint (contention_rssi_weak cfg)) * uint (contention_delay_max_ms cfg) div ?r \<le>
      ?r * uint (contention_delay_max_ms cfg) div ?r"
    using assms by (intro zdiv_mono1 mult_right_mono) simp_all
  also have "\<dots> = uint (contention_delay_max_ms cfg)" using assms by simp
  finally show ?thesis using interpolated_delay [OF assms] by (simp add: word_le_def)
qed

text \<open>(C31) For every configuration the firmware accepts, the delay is the linear interpolation the
  code describes, computed without overflow: the minimum at or below the weak threshold, the
  maximum at or above the strong one, the proportional share of the maximum in between; and
  it never exceeds the larger of the two bounds.\<close>

theorem contention_delay_value:
  assumes "config_in_range cfg"
  shows "uint (ts_contention_rssi_to_delay_ms cfg rssi) =
    (if sint rssi \<le> sint (contention_rssi_weak cfg) then uint (contention_delay_min_ms cfg)
     else if sint (contention_rssi_strong cfg) \<le> sint rssi then uint (contention_delay_max_ms cfg)
     else (sint rssi - sint (contention_rssi_weak cfg)) * uint (contention_delay_max_ms cfg) div
       (sint (contention_rssi_strong cfg) - sint (contention_rssi_weak cfg))) \<and>
    ts_contention_rssi_to_delay_ms cfg rssi \<le>
      max (contention_delay_min_ms cfg) (contention_delay_max_ms cfg)"
proof -
  consider "sint rssi \<le> sint (contention_rssi_weak cfg)"
    | "sint (contention_rssi_weak cfg) < sint rssi" "sint (contention_rssi_strong cfg) \<le> sint rssi"
    | "sint (contention_rssi_weak cfg) < sint rssi" "sint rssi < sint (contention_rssi_strong cfg)"
    by linarith
  then show ?thesis
  proof cases
    case 3
    with interpolated_at_most_max [OF assms 3] interpolated_delay [OF assms 3] show ?thesis
      by (simp add: max.coboundedI2)
  qed (simp_all add: ts_contention_rssi_to_delay_ms_def)
qed

theorem contention_delay_value_witness:
  "uint (ts_contention_rssi_to_delay_ms TS_CONFIG_DEFAULTS (-75)) = 2500"
  using contention_delay_value [OF defaults_in_range, of "-75"] by (simp add: TS_CONFIG_DEFAULTS_def)

text \<open>With the default minimum of 0, a stronger signal never gives a shorter delay.\<close>

lemma contention_delay_monotone:
  assumes "config_in_range cfg" "contention_delay_min_ms cfg = 0" "sint r \<le> sint r'"
  shows "ts_contention_rssi_to_delay_ms cfg r \<le> ts_contention_rssi_to_delay_ms cfg r'"
proof -
  let ?w = "sint (contention_rssi_weak cfg)" and ?s = "sint (contention_rssi_strong cfg)"
  consider "sint r \<le> ?w" | "?w < sint r" "?s \<le> sint r"
    | "?w < sint r" "sint r < ?s" "?s \<le> sint r'" | "?w < sint r" "sint r' < ?s"
    by linarith
  then show ?thesis
  proof cases
    case 1
    then show ?thesis using assms by (simp add: ts_contention_rssi_to_delay_ms_def)
  next
    case 2
    then show ?thesis using assms by (simp add: ts_contention_rssi_to_delay_ms_def)
  next
    case 3
    with interpolated_at_most_max [OF assms(1) 3(1,2)] assms show ?thesis
      by (simp add: ts_contention_rssi_to_delay_ms_def [of cfg r'])
  next
    case 4
    with assms(3) have "(sint r - ?w) * uint (contention_delay_max_ms cfg) div (?s - ?w) \<le>
        (sint r' - ?w) * uint (contention_delay_max_ms cfg) div (?s - ?w)"
      by (intro zdiv_mono1 mult_right_mono) simp_all
    with interpolated_delay [OF assms(1), of r] interpolated_delay [OF assms(1), of r'] 4 assms(3)
    show ?thesis by (simp add: word_le_def)
  qed
qed

text \<open>The configured minimum has no influence between the thresholds: the interpolation starts
  at 0 instead. So whenever the proportional share of the maximum is below the minimum, the
  message is forwarded before the configured minimum delay, and before a message with the
  weakest signal.\<close>

lemma contention_delay_ignores_minimum:
  assumes "config_in_range cfg" "sint (contention_rssi_weak cfg) < sint rssi"
    "sint rssi < sint (contention_rssi_strong cfg)"
    "(sint rssi - sint (contention_rssi_weak cfg)) * uint (contention_delay_max_ms cfg) <
       uint (contention_delay_min_ms cfg) * (sint (contention_rssi_strong cfg) - sint (contention_rssi_weak cfg))"
  shows "ts_contention_rssi_to_delay_ms cfg rssi < contention_delay_min_ms cfg \<and>
    ts_contention_rssi_to_delay_ms cfg (contention_rssi_weak cfg) = contention_delay_min_ms cfg"
proof -
  let ?r = "sint (contention_rssi_strong cfg) - sint (contention_rssi_weak cfg)"
  have "(sint rssi - sint (contention_rssi_weak cfg)) * uint (contention_delay_max_ms cfg) div ?r <
      uint (contention_delay_min_ms cfg)"
    using assms by (intro div_less_if_mult) simp_all
  with interpolated_delay [OF assms(1-3)] show ?thesis
    by (simp add: word_less_def) (simp add: ts_contention_rssi_to_delay_ms_def)
qed

end
