(* ===== verification/Routing.thy ===== *)
theory Routing
  imports Config Messages
begin

text \<open>
  Node addressing, hop limits and duplicate detection: \<open>src/routing/routing.h\<close> and
  \<open>src/routing/routing.c\<close>. The duplicate filter is a ring of 32 entries; the locale
  \<open>replay_window\<close> states what the receive path relies on (the filter remembers exactly
  the most recent messages), and is interpreted on the ring. The filter's entry counter is
  a 32-bit word, and what happens when it wraps is stated too.
\<close>

abbreviation TS_ROUTING_BROADCAST_ADDR :: uint16_t where
  "TS_ROUTING_BROADCAST_ADDR \<equiv> 0xFFFF"

definition TS_ROUTING_SEEN_CACHE_SIZE :: nat where
  "TS_ROUTING_SEEN_CACHE_SIZE = 32"

section \<open>State and operations\<close>

text \<open>\<open>atomic_t\<close> is a \<open>long\<close>; only its low 32 bits are ever read.\<close>

record routing_state =
  self_node_id :: uint16_t
  next_msg_id :: "64 word"
  seen_cache :: "(uint16_t \<times> uint32_t) list"
  seen_write_idx :: uint32_t
  seen_count :: uint32_t

definition ts_routing_init :: "uint16_t \<Rightarrow> routing_state" where
  "ts_routing_init nid =
    \<lparr> self_node_id = nid, next_msg_id = 0,
      seen_cache = replicate TS_ROUTING_SEEN_CACHE_SIZE (0, 0),
      seen_write_idx = 0, seen_count = 0 \<rparr>"

definition ts_routing_get_node_id :: "routing_state \<Rightarrow> uint16_t" where
  "ts_routing_get_node_id rs = self_node_id rs"

definition ts_routing_prepare_header ::
  "ts_config \<Rightarrow> ts_route_header \<Rightarrow> uint16_t \<Rightarrow> routing_state \<Rightarrow> ts_route_header \<times> routing_state" where
  "ts_routing_prepare_header cfg p_hdr dst rs =
    (p_hdr\<lparr> rh_src := self_node_id rs,
            rh_dst := dst,
            rh_msg_id := ucast (next_msg_id rs),
            rh_ttl := routing_ttl cfg \<rparr>,
     rs\<lparr> next_msg_id := next_msg_id rs + 1 \<rparr>)"

definition ts_routing_decrement_ttl :: "ts_route_header \<Rightarrow> int \<times> ts_route_header" where
  "ts_routing_decrement_ttl p_hdr =
    (if rh_ttl p_hdr = 0 then (-EHOSTUNREACH, p_hdr)
     else (0, p_hdr\<lparr>rh_ttl := rh_ttl p_hdr - 1\<rparr>))"

definition ts_routing_is_for_us :: "routing_state \<Rightarrow> ts_route_header \<Rightarrow> bool" where
  "ts_routing_is_for_us rs p_hdr \<longleftrightarrow>
     rh_dst p_hdr = self_node_id rs \<or> rh_dst p_hdr = TS_ROUTING_BROADCAST_ADDR"

definition ts_routing_is_duplicate :: "routing_state \<Rightarrow> ts_route_header \<Rightarrow> bool" where
  "ts_routing_is_duplicate rs p_hdr =
    (let entries = (if unat (seen_count rs) < TS_ROUTING_SEEN_CACHE_SIZE
                    then unat (seen_count rs) else TS_ROUTING_SEEN_CACHE_SIZE)
     in list_ex (\<lambda>i. fst (seen_cache rs ! i) = rh_src p_hdr \<and>
                     snd (seen_cache rs ! i) = rh_msg_id p_hdr) [0..<entries])"

definition ts_routing_mark_seen :: "ts_route_header \<Rightarrow> routing_state \<Rightarrow> routing_state" where
  "ts_routing_mark_seen p_hdr rs =
    rs\<lparr> seen_cache := (seen_cache rs)[unat (seen_write_idx rs) := (rh_src p_hdr, rh_msg_id p_hdr)],
        seen_write_idx := (seen_write_idx rs + 1) mod of_nat TS_ROUTING_SEEN_CACHE_SIZE,
        seen_count := seen_count rs + 1 \<rparr>"

section \<open>What a duplicate filter promises\<close>

text \<open>
  \<open>recent s\<close> are the keys the filter remembers, newest first; \<open>left s\<close> is how many messages
  it can still record before its counter wraps.
\<close>

locale replay_window =
  fixes is_dup :: "'s \<Rightarrow> 'h \<Rightarrow> bool"
    and mark :: "'h \<Rightarrow> 's \<Rightarrow> 's"
    and key :: "'h \<Rightarrow> 'k"
    and recent :: "'s \<Rightarrow> 'k list"
    and left :: "'s \<Rightarrow> nat"
    and valid :: "'s \<Rightarrow> bool"
    and cap :: nat
  assumes dup_iff: "valid s \<Longrightarrow> is_dup s h \<longleftrightarrow> key h \<in> set (recent s)"
    and recent_mark: "valid s \<Longrightarrow> 0 < left s \<Longrightarrow> recent (mark h s) = take cap (key h # recent s)"
    and valid_mark: "valid s \<Longrightarrow> 0 < left s \<Longrightarrow> valid (mark h s)"
    and left_mark: "valid s \<Longrightarrow> 0 < left s \<Longrightarrow> left (mark h s) = left s - 1"
begin

lemma marks:
  "valid s \<Longrightarrow> length hs \<le> left s \<Longrightarrow>
   valid (fold mark hs s) \<and> left (fold mark hs s) = left s - length hs"
proof (induction hs arbitrary: s)
  case (Cons h hs)
  then have h: "valid (mark h s)" "length hs \<le> left (mark h s)" "left (mark h s) = left s - 1"
    by (simp_all add: valid_mark left_mark)
  from Cons.IH [OF h(1,2)] h(3) show ?case by simp
qed simp

lemma marks_recent:
  assumes "valid s" "length hs \<le> left s" "length (recent s) \<le> cap"
  shows "recent (fold mark hs s) = take cap (rev (map key hs) @ recent s)"
  using assms
proof (induction hs arbitrary: s)
  case (Cons h hs)
  then have h: "valid (mark h s)" "length hs \<le> left (mark h s)"
    "recent (mark h s) = take cap (key h # recent s)" "length (recent (mark h s)) \<le> cap"
    by (simp_all add: valid_mark left_mark recent_mark)
  from Cons.IH [OF h(1,2,4)] h(3) show ?case
    by (simp add: take_append min_def)
qed simp

text \<open>A message is still recognised as long as fewer than \<open>cap\<close> others were recorded since.\<close>

lemma still_duplicate:
  assumes "valid s" "0 < left s" "length hs < left s" "length hs < cap" "length (recent s) \<le> cap"
    "key h' = key h"
  shows "is_dup (fold mark hs (mark h s)) h'"
proof -
  have v: "valid (mark h s)" "length hs \<le> left (mark h s)" "length (recent (mark h s)) \<le> cap"
    using assms by (simp_all add: valid_mark left_mark recent_mark)
  have "recent (fold mark hs (mark h s)) = take cap (rev (map key hs) @ take cap (key h # recent s))"
    using marks_recent [OF v] assms by (simp add: recent_mark)
  moreover have "key h \<in> set (take cap (rev (map key hs) @ take cap (key h # recent s)))"
    using assms(4) by (cases cap) (auto simp: take_append Suc_diff_le take_Cons')
  ultimately show ?thesis
    using dup_iff marks [OF v(1,2)] assms(6) by simp
qed

end

section \<open>The ring is such a filter\<close>

definition hdr_key :: "ts_route_header \<Rightarrow> uint16_t \<times> uint32_t" where
  "hdr_key h = (rh_src h, rh_msg_id h)"

definition seen_recent :: "routing_state \<Rightarrow> (uint16_t \<times> uint32_t) list" where
  "seen_recent rs =
     map (\<lambda>k. seen_cache rs ! ((unat (seen_write_idx rs) + 31 - k) mod 32))
       [0..<min (unat (seen_count rs)) 32]"

definition seen_left :: "routing_state \<Rightarrow> nat" where
  "seen_left rs = 4294967295 - unat (seen_count rs)"

definition seen_valid :: "routing_state \<Rightarrow> bool" where
  "seen_valid rs \<longleftrightarrow>
     length (seen_cache rs) = 32 \<and> unat (seen_write_idx rs) < 32 \<and>
     (unat (seen_count rs) < 32 \<longrightarrow> unat (seen_write_idx rs) = unat (seen_count rs))"

lemma length_seen_recent: "length (seen_recent rs) \<le> 32"
  by (simp add: seen_recent_def)

lemma seen_recent_nth:
  "k < length (seen_recent rs) \<Longrightarrow>
   seen_recent rs ! k = seen_cache rs ! ((unat (seen_write_idx rs) + 31 - k) mod 32)"
  by (simp add: seen_recent_def)

lemma seen_entries:
  "ts_routing_is_duplicate rs h \<longleftrightarrow>
     (\<exists>i < min (unat (seen_count rs)) 32. seen_cache rs ! i = hdr_key h)"
  by (auto simp: ts_routing_is_duplicate_def TS_ROUTING_SEEN_CACHE_SIZE_def Let_def list_ex_iff
      hdr_key_def prod_eq_iff min_def split: if_splits)

text \<open>The ring positions read backwards from the write index are the entries in use.\<close>

lemma ring_positions:
  assumes "w < 32" "n < 32 \<longrightarrow> w = n"
  shows "(\<lambda>k. (w + 31 - k) mod 32) ` {0..<min n 32} = {0..<min n (32::nat)}"
proof (intro set_eqI iffI)
  fix i assume "i \<in> (\<lambda>k. (w + 31 - k) mod 32) ` {0..<min n 32}"
  then obtain k where k: "i = (w + 31 - k) mod 32" "k < min n 32" by auto
  show "i \<in> {0..<min n 32}"
  proof (cases "n < 32")
    case True
    with k assms have "w + 31 - k = (n - 1 - k) + 32" "n - 1 - k < 32" by auto
    then have "i = n - 1 - k" using k(1) by (metis mod_add_self2 mod_less)
    with k True show ?thesis by auto
  next
    case False
    with k show ?thesis by simp
  qed
next
  fix i assume i: "i \<in> {0..<min n 32}"
  let ?k = "(w + 31 - i) mod 32"
  have "(w + 31 - ?k) mod 32 = i"
  proof (cases "w + 31 - i < 32")
    case True
    with i assms show ?thesis by simp
  next
    case False
    with i assms(1) have k: "?k = w - i - 1" by (simp add: mod_if)
    from False i assms(1) have "w + 31 - (w - i - 1) = i + 32" by auto
    with k i show ?thesis by simp
  qed
  moreover have "?k < min n 32"
  proof (cases "n < 32")
    case True
    with i assms have "?k = n - 1 - i" by (simp add: mod_if)
    with i True show ?thesis by auto
  qed simp
  ultimately show "i \<in> (\<lambda>k. (w + 31 - k) mod 32) ` {0..<min n 32}"
    by (metis (no_types, lifting) atLeastLessThan_iff image_eqI zero_le)
qed

lemma set_seen_recent:
  "seen_valid rs \<Longrightarrow>
   set (seen_recent rs) = (\<lambda>i. seen_cache rs ! i) ` {0..<min (unat (seen_count rs)) 32}"
  using arg_cong [OF ring_positions [of "unat (seen_write_idx rs)" "unat (seen_count rs)"],
      of "\<lambda>A. (\<lambda>i. seen_cache rs ! i) ` A"]
  by (simp add: seen_recent_def seen_valid_def image_image)

lemma next_write_idx:
  assumes "unat (i :: uint32_t) < 32"
  shows "unat ((i + 1) mod of_nat TS_ROUTING_SEEN_CACHE_SIZE) = (unat i + 1) mod 32"
  using assms by (simp add: TS_ROUTING_SEEN_CACHE_SIZE_def unat_mod_distrib unat_word_ariths)

lemma seen_count_step:
  "0 < seen_left rs \<Longrightarrow> unat (seen_count rs + 1) = unat (seen_count rs) + 1"
  by (simp add: seen_left_def unat_word_ariths)

lemma seen_recent_mark:
  assumes v: "seen_valid rs" and l: "0 < seen_left rs"
  shows "seen_recent (ts_routing_mark_seen h rs) = take 32 (hdr_key h # seen_recent rs)"
proof (rule nth_equalityI)
  let ?rs = "ts_routing_mark_seen h rs" and ?w = "unat (seen_write_idx rs)"
  let ?n = "unat (seen_count rs)"
  have w: "?w < 32" and len: "length (seen_cache rs) = 32" using v by (auto simp: seen_valid_def)
  have n': "unat (seen_count ?rs) = ?n + 1"
    using seen_count_step [OF l] by (simp add: ts_routing_mark_seen_def)
  have w': "unat (seen_write_idx ?rs) = (?w + 1) mod 32"
    using next_write_idx [OF w] by (simp add: ts_routing_mark_seen_def)
  show L: "length (seen_recent ?rs) = length (take 32 (hdr_key h # seen_recent rs))"
    by (simp add: seen_recent_def n')
  fix k assume k: "k < length (seen_recent ?rs)"
  then have k32: "k < 32" "k < ?n + 1" by (auto simp: seen_recent_def n')
  have new: "seen_recent ?rs ! k =
      (seen_cache rs)[?w := hdr_key h] ! (((?w + 1) mod 32 + 31 - k) mod 32)"
    unfolding seen_recent_nth [OF k] w' by (simp add: ts_routing_mark_seen_def hdr_key_def)
  show "seen_recent ?rs ! k = take 32 (hdr_key h # seen_recent rs) ! k"
  proof (cases k)
    case 0
    have "((?w + 1) mod 32 + 31) mod 32 = ?w" using w by (simp add: mod_if)
    with 0 new w len show ?thesis by simp
  next
    case (Suc j)
    have "((?w + 1) mod 32 + 31 - k) mod 32 = (?w + 31 - j) mod 32"
      using Suc k32 w by (auto simp: mod_if)
    moreover have "(?w + 31 - j) mod 32 \<noteq> ?w" using Suc k32 w by (auto simp: mod_if)
    ultimately show ?thesis using new Suc k32 by (simp add: seen_recent_def)
  qed
qed

interpretation seen: replay_window ts_routing_is_duplicate ts_routing_mark_seen hdr_key
  seen_recent seen_left seen_valid 32
proof
  fix rs h
  assume v: "seen_valid rs"
  show "ts_routing_is_duplicate rs h \<longleftrightarrow> hdr_key h \<in> set (seen_recent rs)"
    unfolding seen_entries set_seen_recent [OF v] image_iff by (auto intro: sym)
  assume l: "0 < seen_left rs"
  show "seen_recent (ts_routing_mark_seen h rs) = take 32 (hdr_key h # seen_recent rs)"
    by (rule seen_recent_mark [OF v l])
  have c: "unat (seen_count rs + 1) = unat (seen_count rs) + 1" by (rule seen_count_step [OF l])
  show "seen_left (ts_routing_mark_seen h rs) = seen_left rs - 1"
    using c by (simp add: seen_left_def ts_routing_mark_seen_def)
  show "seen_valid (ts_routing_mark_seen h rs)"
    using v c next_write_idx [of "seen_write_idx rs"]
    by (auto simp: seen_valid_def ts_routing_mark_seen_def mod_if)
qed

section \<open>Consequences for the firmware\<close>

lemma seen_valid_init: "seen_valid (ts_routing_init nid)"
  by (simp add: seen_valid_def ts_routing_init_def TS_ROUTING_SEEN_CACHE_SIZE_def)

lemma seen_recent_init [simp]: "seen_recent (ts_routing_init nid) = []"
  by (simp add: seen_recent_def ts_routing_init_def)

lemma seen_left_init [simp]: "seen_left (ts_routing_init nid) = 4294967295"
  by (simp add: seen_left_def ts_routing_init_def)

lemma mark_seen_fields [simp]:
  "self_node_id (ts_routing_mark_seen h rs) = self_node_id rs"
  "next_msg_id (ts_routing_mark_seen h rs) = next_msg_id rs"
  by (simp_all add: ts_routing_mark_seen_def)

lemma seen_count_marks:
  "seen_count (fold ts_routing_mark_seen hs rs) = seen_count rs + of_nat (length hs)"
proof (induction hs arbitrary: rs)
  case (Cons h hs)
  show ?case by (simp add: Cons) (simp add: ts_routing_mark_seen_def)
qed simp

text \<open>(C11) For the first \<open>2\<^sup>32 - 1\<close> messages recorded after a boot, the ring implements
  its specification: a header is reported as a duplicate exactly when its source and message
  id are those of one of the last 32 recorded messages.\<close>

theorem duplicate_iff_in_last_32:
  assumes "length hs < 2 ^ 32"
  shows "ts_routing_is_duplicate (fold ts_routing_mark_seen hs (ts_routing_init nid)) h \<longleftrightarrow>
    (\<exists>g \<in> set (drop (length hs - 32) hs). rh_src g = rh_src h \<and> rh_msg_id g = rh_msg_id h)"
proof -
  let ?rs = "fold ts_routing_mark_seen hs (ts_routing_init nid)"
  have l: "length hs \<le> seen_left (ts_routing_init nid)" using assms by simp
  have "ts_routing_is_duplicate ?rs h \<longleftrightarrow> hdr_key h \<in> set (seen_recent ?rs)"
    using seen.dup_iff seen.marks [OF seen_valid_init l] by simp
  also have "seen_recent ?rs = take 32 (rev (map hdr_key hs))"
    using seen.marks_recent [OF seen_valid_init l] by simp
  also have "\<dots> = rev (map hdr_key (drop (length hs - 32) hs))"
    by (simp add: take_rev drop_map)
  finally show ?thesis by (simp add: hdr_key_def image_iff) (metis (no_types))
qed

theorem duplicate_iff_in_last_32_witness:
  "(let h = zero_header\<lparr>rh_src := 7, rh_msg_id := 3\<rparr>; g = zero_header\<lparr>rh_src := 9\<rparr>
    in ts_routing_is_duplicate (fold ts_routing_mark_seen (h # replicate 31 g) (ts_routing_init 1)) h \<and>
       \<not> ts_routing_is_duplicate (fold ts_routing_mark_seen (h # replicate 32 g) (ts_routing_init 1)) h)"
  unfolding Let_def
  by (subst (1 2) duplicate_iff_in_last_32) (simp_all add: zero_header_def)

text \<open>(C40) The entry counter is 32 bits wide and never saturates: when the \<open>2\<^sup>32\<close>-th message
  has been recorded it reads zero, and no message at all is recognised as a duplicate, the
  one just recorded included.\<close>

theorem duplicate_filter_forgets_on_wrap:
  assumes "length hs = 2 ^ 32"
  shows "\<not> ts_routing_is_duplicate (fold ts_routing_mark_seen hs (ts_routing_init nid)) h"
proof -
  have "seen_count (fold ts_routing_mark_seen hs (ts_routing_init nid)) = of_nat (2 ^ 32)"
    unfolding seen_count_marks assms by (simp add: ts_routing_init_def)
  then show ?thesis by (simp add: seen_entries)
qed

theorem duplicate_filter_forgets_on_wrap_witness:
  "length (replicate (2 ^ 32) zero_header) = (2 ^ 32 :: nat) \<and>
   \<not> ts_routing_is_duplicate
       (fold ts_routing_mark_seen (replicate (2 ^ 32) zero_header) (ts_routing_init 1)) zero_header"
  by (intro conjI length_replicate duplicate_filter_forgets_on_wrap)

section \<open>Headers a node prepares\<close>

text \<open>A sequence of \<open>ts_routing_prepare_header\<close> calls, each on a header and a destination.\<close>

fun prepare_all ::
  "ts_config \<Rightarrow> (ts_route_header \<times> uint16_t) list \<Rightarrow> routing_state \<Rightarrow> ts_route_header list" where
  "prepare_all cfg [] rs = []"
| "prepare_all cfg ((h, dst) # calls) rs =
     (let (h', rs') = ts_routing_prepare_header cfg h dst rs in h' # prepare_all cfg calls rs')"

lemma length_prepare_all [simp]: "length (prepare_all cfg calls rs) = length calls"
  by (induction cfg calls rs rule: prepare_all.induct) (auto simp: split: prod.splits)

lemma prepare_all_nth:
  "i < length calls \<Longrightarrow> prepare_all cfg calls rs ! i =
     (fst (calls ! i))\<lparr> rh_src := self_node_id rs, rh_dst := snd (calls ! i),
        rh_msg_id := ucast (next_msg_id rs + of_nat i), rh_ttl := routing_ttl cfg \<rparr>"
proof (induction calls arbitrary: i rs)
  case (Cons c calls)
  show ?case
  proof (cases i)
    case 0
    then show ?thesis by (cases c) (simp add: ts_routing_prepare_header_def)
  next
    case (Suc j)
    with Cons show ?thesis
      by (cases c) (simp add: ts_routing_prepare_header_def add.assoc)
  qed
qed simp

lemma ucast_of_nat_64_32: "(ucast (of_nat n :: 64 word) :: uint32_t) = of_nat n"
  by transfer (simp add: take_bit_of_nat)

text \<open>(C30) After a boot, the \<open>i\<close>-th prepared header carries this node as its source, the
  requested destination, the configured hop limit and message id \<open>i\<close>; key id and the rest
  are kept. Two headers of one boot share a message id only if \<open>2\<^sup>32\<close> or more calls lie
  between them.\<close>

theorem prepared_headers_identify_messages:
  assumes "i < length calls" "j < length calls"
  shows "prepare_all cfg calls (ts_routing_init nid) ! i =
      (fst (calls ! i))\<lparr> rh_src := nid, rh_dst := snd (calls ! i),
         rh_msg_id := of_nat i, rh_ttl := routing_ttl cfg \<rparr> \<and>
    (i < j \<and> j < i + 2 ^ 32 \<longrightarrow>
      rh_msg_id (prepare_all cfg calls (ts_routing_init nid) ! i) \<noteq>
      rh_msg_id (prepare_all cfg calls (ts_routing_init nid) ! j))"
proof -
  have nth: "prepare_all cfg calls (ts_routing_init nid) ! k =
      (fst (calls ! k))\<lparr> rh_src := nid, rh_dst := snd (calls ! k),
         rh_msg_id := of_nat k, rh_ttl := routing_ttl cfg \<rparr>" if "k < length calls" for k
    unfolding prepare_all_nth [OF that] by (simp add: ts_routing_init_def ucast_of_nat_64_32)
  have "(of_nat i :: uint32_t) \<noteq> of_nat j" if "i < j" "j < i + 2 ^ 32"
  proof
    assume "(of_nat i :: uint32_t) = of_nat j"
    then have z: "(of_nat (j - i) :: uint32_t) = 0" using that by (simp add: of_nat_diff)
    have "(of_nat (j - i) :: uint32_t) \<noteq> of_nat 0"
      using that by (subst u32_of_nat_eq) auto
    with z show False by simp
  qed
  then show ?thesis using nth assms by simp
qed

theorem prepared_headers_identify_messages_witness:
  "(let hs = prepare_all TS_CONFIG_DEFAULTS [(zero_header, 5), (zero_header, 6)] (ts_routing_init 2)
    in rh_src (hs ! 0) = 2 \<and> rh_dst (hs ! 0) = 5 \<and> rh_msg_id (hs ! 0) \<noteq> rh_msg_id (hs ! 1))"
  using prepared_headers_identify_messages
    [of 0 "[(zero_header, 5), (zero_header, 6)]" 1 TS_CONFIG_DEFAULTS 2]
  by (auto simp add: Let_def simp del: prepare_all.simps)

text \<open>The relays of a message on its way through the mesh, each decrementing its hop limit.\<close>

fun relay_hops :: "nat \<Rightarrow> ts_route_header \<Rightarrow> ts_route_header option" where
  "relay_hops 0 h = Some h"
| "relay_hops (Suc n) h =
     (case ts_routing_decrement_ttl h of (ret, h') \<Rightarrow> if ret = 0 then relay_hops n h' else None)"

text \<open>A message is relayed exactly as many times as its hop limit says: after \<open>n\<close> hops
  its limit is lower by \<open>n\<close> and nothing else of the header has changed, and the relay after
  the last permitted one is refused. In particular the limit never wraps below zero.\<close>

lemma ttl_bounds_relaying:
  "relay_hops n h =
    (if n \<le> unat (rh_ttl h) then Some (h\<lparr>rh_ttl := rh_ttl h - of_nat n\<rparr>) else None)"
proof (induction n arbitrary: h)
  case (Suc n)
  show ?case
  proof (cases "rh_ttl h = 0")
    case False
    then have "unat (rh_ttl h - 1) = unat (rh_ttl h) - 1" "0 < unat (rh_ttl h)"
      by (simp_all add: unat_minus_one unat_gt_0)
    with False Suc show ?thesis by (auto simp: ts_routing_decrement_ttl_def algebra_simps)
  qed (simp add: ts_routing_decrement_ttl_def)
qed simp

end
