(* ===== verification/Routing_Table.thy ===== *)
theory Routing_Table
  imports Routing Slots
begin

text \<open>
  The neighbour table: \<open>src/routing/routing_table.h\<close> and \<open>src/routing/routing_table.c\<close>.
  The mutex makes each operation atomic, so an operation is one function on the array.
  \<open>k_uptime_seconds()\<close> is an argument: its value when the operation reads the clock. The
  abstract table is the partial map \<open>neighbours\<close> from node ids to entries; the theorems
  give every operation's effect on it, eviction and ageing included.
\<close>

definition TS_ROUTING_TABLE_SIZE :: nat where
  "TS_ROUTING_TABLE_SIZE = 16"

section \<open>State and operations\<close>

record ts_neighbor =
  nb_node_id :: uint16_t
  nb_rssi :: int16_t
  nb_snr :: int8_t
  nb_direct :: bool
  nb_last_seen :: uint32_t
  nb_occupied :: bool

type_synonym neighbor_table = "ts_neighbor list"

definition zero_neighbor :: ts_neighbor where
  "zero_neighbor =
    \<lparr> nb_node_id = 0, nb_rssi = 0, nb_snr = 0, nb_direct = False, nb_last_seen = 0,
      nb_occupied = False \<rparr>"

definition find_by_node_id :: "uint16_t \<Rightarrow> neighbor_table \<Rightarrow> nat option" where
  "find_by_node_id nid table = first_index (\<lambda>n. nb_occupied n \<and> nb_node_id n = nid) table"

definition find_free_slot :: "neighbor_table \<Rightarrow> nat option" where
  "find_free_slot table = first_index (\<lambda>n. \<not> nb_occupied n) table"

definition older :: "neighbor_table \<Rightarrow> nat option \<Rightarrow> nat \<Rightarrow> nat option" where
  "older table oldest i =
    (if nb_occupied (table ! i) then
       (case oldest of
          None \<Rightarrow> Some i
        | Some j \<Rightarrow> if nb_last_seen (table ! i) < nb_last_seen (table ! j) then Some i else oldest)
     else oldest)"

definition find_oldest :: "neighbor_table \<Rightarrow> nat option" where
  "find_oldest table = foldl (older table) None [0..<TS_ROUTING_TABLE_SIZE]"

definition ts_routing_table_init :: neighbor_table where
  "ts_routing_table_init = replicate TS_ROUTING_TABLE_SIZE zero_neighbor"

definition ts_routing_table_update ::
  "uint32_t \<Rightarrow> ts_config \<Rightarrow> uint16_t \<Rightarrow> int16_t \<Rightarrow> int8_t \<Rightarrow> uint8_t \<Rightarrow> neighbor_table \<Rightarrow>
   int \<times> neighbor_table" where
  "ts_routing_table_update now cfg nid rssi snr ttl table =
    (let is_direct = (ttl = routing_ttl cfg) in
     case find_by_node_id nid table of
       Some e \<Rightarrow>
         (let entry = (table ! e)\<lparr> nb_rssi := rssi, nb_snr := snr, nb_last_seen := now \<rparr>;
              entry = (if is_direct then entry\<lparr>nb_direct := True\<rparr> else entry)
          in (0, table[e := entry]))
     | None \<Rightarrow>
         (case (case find_free_slot table of Some e \<Rightarrow> Some e | None \<Rightarrow> find_oldest table) of
            None \<Rightarrow> (-ENOSPC, table)
          | Some e \<Rightarrow>
              (0, table[e := (table ! e)\<lparr> nb_node_id := nid, nb_rssi := rssi, nb_snr := snr,
                                nb_direct := is_direct, nb_last_seen := now,
                                nb_occupied := True \<rparr>])))"

definition ts_routing_table_lookup :: "uint16_t \<Rightarrow> neighbor_table \<Rightarrow> int + ts_neighbor" where
  "ts_routing_table_lookup nid table =
    (case find_by_node_id nid table of None \<Rightarrow> Inl (-ENOENT) | Some e \<Rightarrow> Inr (table ! e))"

definition age_slot :: "uint32_t \<Rightarrow> uint32_t \<Rightarrow> int \<times> neighbor_table \<Rightarrow> nat \<Rightarrow> int \<times> neighbor_table" where
  "age_slot now max_age_s r i =
    (case r of (removed, table) \<Rightarrow>
       if nb_occupied (table ! i) \<and> now - nb_last_seen (table ! i) \<ge> max_age_s
       then (removed + 1, table[i := (table ! i)\<lparr>nb_occupied := False\<rparr>])
       else (removed, table))"

definition ts_routing_table_age_seconds ::
  "uint32_t \<Rightarrow> uint32_t \<Rightarrow> neighbor_table \<Rightarrow> int \<times> neighbor_table" where
  "ts_routing_table_age_seconds now max_age_s table =
    foldl (age_slot now max_age_s) (0, table) [0..<TS_ROUTING_TABLE_SIZE]"

definition ts_routing_table_count :: "neighbor_table \<Rightarrow> uint32_t" where
  "ts_routing_table_count table =
    foldl (\<lambda>count i. if nb_occupied (table ! i) then count + 1 else count) 0
      [0..<TS_ROUTING_TABLE_SIZE]"

section \<open>The abstract table\<close>

definition neighbours :: "neighbor_table \<Rightarrow> uint16_t \<Rightarrow> ts_neighbor option" where
  "neighbours table = slot_lookup nb_occupied nb_node_id table"

definition table_ok :: "neighbor_table \<Rightarrow> bool" where
  "table_ok table \<longleftrightarrow>
     length table = TS_ROUTING_TABLE_SIZE \<and> slot_distinct nb_occupied nb_node_id table"

interpretation nb: slot_table nb_occupied nb_node_id "\<lambda>n. n\<lparr>nb_occupied := False\<rparr>"
  by unfold_locales simp

lemma table_okD:
  assumes "table_ok table"
  shows "length table = 16" "slot_distinct nb_occupied nb_node_id table"
  using assms by (simp_all add: table_ok_def TS_ROUTING_TABLE_SIZE_def)

lemma table_ok_init: "table_ok ts_routing_table_init"
  by (simp add: table_ok_def ts_routing_table_init_def slot_distinct_def zero_neighbor_def)

lemma neighbours_init: "neighbours ts_routing_table_init = Map.empty"
  by (rule ext)
    (simp add: neighbours_def ts_routing_table_init_def slot_lookup_None zero_neighbor_def)

lemma lookup_neighbours:
  "ts_routing_table_lookup nid table =
    (case neighbours table nid of None \<Rightarrow> Inl (-ENOENT) | Some n \<Rightarrow> Inr n)"
  by (simp add: ts_routing_table_lookup_def find_by_node_id_def neighbours_def slot_lookup_def
      split: option.splits)

lemma neighbours_nth:
  assumes "table_ok table" "i < 16" "nb_occupied (table ! i)"
  shows "neighbours table (nb_node_id (table ! i)) = Some (table ! i)"
  using slot_lookup_nth [OF table_okD(2) [OF assms(1)], of i] assms table_okD(1) [OF assms(1)]
  by (simp add: neighbours_def)

lemma neighbours_nth_ex:
  assumes "table_ok table" "neighbours table k = Some n"
  shows "\<exists>i < 16. n = table ! i \<and> nb_occupied n \<and> nb_node_id n = k"
  using slot_lookup_SomeD [of nb_occupied nb_node_id table k n] assms table_okD(1) [OF assms(1)]
  by (auto simp: neighbours_def in_set_conv_nth)

text \<open>The scan for the oldest entry: over the first \<open>n\<close> slots it gives an occupied slot with
  the smallest time stamp, or nothing when none is occupied.\<close>

lemma oldest_scan:
  "case foldl (older table) None [0..<n] of
     None \<Rightarrow> \<forall>i < n. \<not> nb_occupied (table ! i)
   | Some j \<Rightarrow> j < n \<and> nb_occupied (table ! j) \<and>
       (\<forall>i < n. nb_occupied (table ! i) \<longrightarrow> nb_last_seen (table ! j) \<le> nb_last_seen (table ! i))"
proof (induction n)
  case (Suc n)
  let ?r = "foldl (older table) None [0..<n]"
  have step: "foldl (older table) None [0..<Suc n] = older table ?r n" by simp
  show ?case
  proof (cases ?r)
    case None
    with Suc have "\<forall>i < n. \<not> nb_occupied (table ! i)" by simp
    then show ?thesis unfolding step None by (simp add: older_def less_Suc_eq)
  next
    case (Some j)
    with Suc have "j < n" "nb_occupied (table ! j)"
      "\<forall>i < n. nb_occupied (table ! i) \<longrightarrow> nb_last_seen (table ! j) \<le> nb_last_seen (table ! i)"
      by simp_all
    then show ?thesis unfolding step Some by (auto simp: older_def less_Suc_eq)
  qed
qed simp

lemma find_oldest_full:
  assumes "table_ok table" "find_free_slot table = None"
  shows "\<exists>j < 16. find_oldest table = Some j \<and> nb_occupied (table ! j) \<and>
    (\<forall>i < 16. nb_last_seen (table ! j) \<le> nb_last_seen (table ! i))"
proof -
  have occ: "nb_occupied (table ! i)" if "i < 16" for i
    using assms that table_okD(1) [OF assms(1)] by (auto simp: find_free_slot_def loop_simps)
  have scan: "foldl (older table) None [0..<16] = find_oldest table"
    by (simp only: find_oldest_def TS_ROUTING_TABLE_SIZE_def)
  show ?thesis
  proof (cases "find_oldest table")
    case None
    then have "\<not> nb_occupied (table ! 0)"
      using oldest_scan [where table = table and n = 16] unfolding scan by simp
    with occ [of 0] show ?thesis by simp
  next
    case (Some j)
    then show ?thesis
      using oldest_scan [where table = table and n = 16] occ unfolding scan by simp
  qed
qed

section \<open>Update\<close>

text \<open>The entry an update leaves: the new readings, and the \<open>direct\<close> mark of the packet or
  of the entry that was already there.\<close>

definition updated_entry ::
  "uint32_t \<Rightarrow> ts_config \<Rightarrow> uint16_t \<Rightarrow> int16_t \<Rightarrow> int8_t \<Rightarrow> uint8_t \<Rightarrow> neighbor_table \<Rightarrow> ts_neighbor" where
  "updated_entry now cfg nid rssi snr ttl table =
    \<lparr> nb_node_id = nid, nb_rssi = rssi, nb_snr = snr,
      nb_direct = (ttl = routing_ttl cfg \<or>
        (case neighbours table nid of None \<Rightarrow> False | Some n \<Rightarrow> nb_direct n)),
      nb_last_seen = now, nb_occupied = True \<rparr>"

definition table_full :: "neighbor_table \<Rightarrow> bool" where
  "table_full table \<longleftrightarrow> (\<forall>n \<in> set table. nb_occupied n)"

lemma find_by_node_id_None: "find_by_node_id nid table = None \<longleftrightarrow> neighbours table nid = None"
  by (simp add: find_by_node_id_def neighbours_def slot_lookup_def)

lemma find_free_slot_None: "find_free_slot table = None \<longleftrightarrow> table_full table"
  by (simp add: find_free_slot_def table_full_def loop_simps)

lemma refresh_entry:
  "nb_occupied n \<Longrightarrow> n\<lparr>nb_rssi := r, nb_snr := s, nb_last_seen := t\<rparr> =
     \<lparr>nb_node_id = nb_node_id n, nb_rssi = r, nb_snr = s, nb_direct = nb_direct n,
      nb_last_seen = t, nb_occupied = True\<rparr>"
  by (cases n) simp

lemma overwrite_entry:
  "n\<lparr>nb_node_id := nid, nb_rssi := r, nb_snr := s, nb_direct := d, nb_last_seen := t,
     nb_occupied := True\<rparr> =
   \<lparr>nb_node_id = nid, nb_rssi = r, nb_snr = s, nb_direct = d, nb_last_seen = t,
    nb_occupied = True\<rparr>"
  by (cases n) simp

text \<open>The one place where the array is written: slot \<open>e\<close> receives the updated entry.\<close>

lemma update_slot:
  assumes ok: "table_ok table"
  shows "\<exists>e < 16.
    ts_routing_table_update now cfg nid rssi snr ttl table =
      (0, table[e := updated_entry now cfg nid rssi snr ttl table]) \<and>
    (if neighbours table nid \<noteq> None then nb_occupied (table ! e) \<and> nb_node_id (table ! e) = nid
     else if table_full table then nb_occupied (table ! e) \<and>
       (\<forall>i < 16. nb_last_seen (table ! e) \<le> nb_last_seen (table ! i))
     else \<not> nb_occupied (table ! e))"
proof (cases "find_by_node_id nid table")
  case (Some e)
  then have e: "e < 16" "nb_occupied (table ! e)" "nb_node_id (table ! e) = nid"
    using first_index_SomeD [of _ table e] table_okD(1) [OF ok] by (auto simp: find_by_node_id_def)
  with neighbours_nth [OF ok, of e] have n: "neighbours table nid = Some (table ! e)" by simp
  with Some e show ?thesis
    by (intro exI [of _ e]) (simp add: ts_routing_table_update_def updated_entry_def
        refresh_entry overwrite_entry Let_def)
next
  case None
  then have n: "neighbours table nid = None" by (simp add: find_by_node_id_None)
  show ?thesis
  proof (cases "find_free_slot table")
    case (Some e)
    then have "e < 16" "\<not> nb_occupied (table ! e)"
      using first_index_SomeD [of _ table e] table_okD(1) [OF ok] by (auto simp: find_free_slot_def)
    moreover have "\<not> table_full table" using Some find_free_slot_None [of table] by simp
    ultimately show ?thesis using Some None n
      by (intro exI [of _ e]) (simp add: ts_routing_table_update_def updated_entry_def
        refresh_entry overwrite_entry Let_def)
  next
    case full: None
    from find_oldest_full [OF ok full] obtain j where
      j: "j < 16" "find_oldest table = Some j" "nb_occupied (table ! j)"
      "\<forall>i < 16. nb_last_seen (table ! j) \<le> nb_last_seen (table ! i)" by blast
    with None n full find_free_slot_None [of table] show ?thesis
      by (intro exI [of _ j]) (simp add: ts_routing_table_update_def updated_entry_def
        refresh_entry overwrite_entry Let_def)
  qed
qed

text \<open>The effect of writing an entry for \<open>nid\<close> into slot \<open>e\<close> of a table in which \<open>nid\<close> is
  absent or in that very slot.\<close>

lemma put_neighbour:
  assumes ok: "table_ok table" and e: "e < 16" and n: "nb_occupied n" "nb_node_id n = nid"
    and free: "neighbours table nid = None \<or> nb_occupied (table ! e) \<and> nb_node_id (table ! e) = nid"
  shows "table_ok (table[e := n]) \<and>
    neighbours (table[e := n]) =
      (if nb_occupied (table ! e) then (neighbours table)(nb_node_id (table ! e) := None, nid \<mapsto> n)
       else (neighbours table)(nid \<mapsto> n))"
proof
  note t = table_okD [OF ok]
  have other: "nb_node_id (table ! j) \<noteq> nb_node_id n"
    if "j < length table" "j \<noteq> e" "nb_occupied (table ! j)" for j
  proof
    assume "nb_node_id (table ! j) = nb_node_id n"
    with n have j: "nb_node_id (table ! j) = nid" by simp
    with neighbours_nth [OF ok, of j] that t(1) have "neighbours table nid \<noteq> None" by auto
    with free have "nb_occupied (table ! e)" "nb_node_id (table ! e) = nid" by auto
    with slot_distinctD [OF t(2), of j e] j that t(1) e show False by simp
  qed
  show "table_ok (table[e := n])"
    using nb.put_distinct [OF t(2), of e n] other e t(1) ok by (simp add: table_ok_def)
  have "neighbours (table[e := n]) k =
      (if k = nid then Some n
       else if nb_occupied (table ! e) \<and> nb_node_id (table ! e) = k then None
       else neighbours table k)" for k
    using nb.lookup_put [OF t(2) _ n(1), of e k] other e t(1) n(2) by (simp add: neighbours_def)
  then show "neighbours (table[e := n]) =
      (if nb_occupied (table ! e) then (neighbours table)(nb_node_id (table ! e) := None, nid \<mapsto> n)
       else (neighbours table)(nid \<mapsto> n))"
    by (intro ext) auto
qed

lemma updated_entry_simps [simp]:
  "nb_occupied (updated_entry now cfg nid rssi snr ttl table)"
  "nb_node_id (updated_entry now cfg nid rssi snr ttl table) = nid"
  by (simp_all add: updated_entry_def)

lemma update_effect:
  assumes "table_ok table"
  shows "fst (ts_routing_table_update now cfg nid rssi snr ttl table) = 0"
    "table_ok (snd (ts_routing_table_update now cfg nid rssi snr ttl table))"
    "neighbours (snd (ts_routing_table_update now cfg nid rssi snr ttl table)) nid =
      Some (updated_entry now cfg nid rssi snr ttl table)"
proof -
  from update_slot [OF assms, of now cfg nid rssi snr ttl] obtain e where
    e: "e < 16" and u: "ts_routing_table_update now cfg nid rssi snr ttl table =
      (0, table[e := updated_entry now cfg nid rssi snr ttl table])"
    and c: "neighbours table nid = None \<or> nb_occupied (table ! e) \<and> nb_node_id (table ! e) = nid"
    by (metis (full_types))
  from put_neighbour [OF assms e _ _ c, of "updated_entry now cfg nid rssi snr ttl table"] u
  show "fst (ts_routing_table_update now cfg nid rssi snr ttl table) = 0"
    "table_ok (snd (ts_routing_table_update now cfg nid rssi snr ttl table))"
    "neighbours (snd (ts_routing_table_update now cfg nid rssi snr ttl table)) nid =
      Some (updated_entry now cfg nid rssi snr ttl table)"
    by simp_all
qed

lemma update_ok [inv_intros]:
  "table_ok table \<Longrightarrow> fst (ts_routing_table_update now cfg nid rssi snr ttl table) = 0 \<and>
    table_ok (snd (ts_routing_table_update now cfg nid rssi snr ttl table))"
  by (simp add: update_effect)

lemma update_known:
  assumes "table_ok table" "neighbours table nid \<noteq> None \<or> \<not> table_full table"
  shows "\<exists>table'. ts_routing_table_update now cfg nid rssi snr ttl table = (0, table') \<and>
    table_ok table' \<and>
    neighbours table' = (neighbours table)(nid \<mapsto> updated_entry now cfg nid rssi snr ttl table)"
proof -
  let ?n = "updated_entry now cfg nid rssi snr ttl table"
  from update_slot [OF assms(1), of now cfg nid rssi snr ttl] assms(2) obtain e where
    e: "e < 16" and u: "ts_routing_table_update now cfg nid rssi snr ttl table = (0, table[e := ?n])"
    and c: "if neighbours table nid \<noteq> None then nb_occupied (table ! e) \<and> nb_node_id (table ! e) = nid
      else \<not> nb_occupied (table ! e)"
    by (metis (full_types))
  then have c': "neighbours table nid = None \<or> nb_occupied (table ! e) \<and> nb_node_id (table ! e) = nid"
    by (metis (full_types))
  from put_neighbour [OF assms(1) e _ _ c', of ?n] c u show ?thesis by (auto split: if_splits)
qed

text \<open>(C22) Recording a neighbour that is known, or any neighbour while a slot is free, always
  succeeds and binds exactly that node in the table: to the new readings and time stamp, and
  to a \<open>direct\<close> mark that is set by a packet that arrived with the full hop limit and never
  taken back. All other neighbours keep their entries, and no node gets a second slot.\<close>

theorem table_update_records_neighbour:
  assumes "table_ok table" "neighbours table nid \<noteq> None \<or> \<not> table_full table"
  shows "\<exists>table'. ts_routing_table_update now cfg nid rssi snr ttl table = (0, table') \<and>
    table_ok table' \<and>
    neighbours table' = (neighbours table)(nid \<mapsto> updated_entry now cfg nid rssi snr ttl table)"
  by (rule update_known [OF assms])

lemma init_not_full: "\<not> table_full ts_routing_table_init"
  by (simp add: table_full_def ts_routing_table_init_def TS_ROUTING_TABLE_SIZE_def zero_neighbor_def)

theorem table_update_records_neighbour_witness:
  "\<exists>table'. ts_routing_table_update 60 TS_CONFIG_DEFAULTS 7 (-80) 9 5 ts_routing_table_init = (0, table') \<and>
    ts_routing_table_lookup 7 table' =
      Inr \<lparr>nb_node_id = 7, nb_rssi = -80, nb_snr = 9, nb_direct = True, nb_last_seen = 60,
           nb_occupied = True\<rparr> \<and>
    ts_routing_table_lookup 8 table' = Inl (-ENOENT)"
  using table_update_records_neighbour [OF table_ok_init disjI2 [OF init_not_full],
      of 60 TS_CONFIG_DEFAULTS 7 "-80" 9 5]
  by (auto simp: lookup_neighbours neighbours_init updated_entry_def TS_CONFIG_DEFAULTS_def)

lemma update_evicts:
  assumes "table_ok table" "neighbours table nid = None" "table_full table"
  shows "\<exists>table' v. ts_routing_table_update now cfg nid rssi snr ttl table = (0, table') \<and>
    table_ok table' \<and> neighbours table (nb_node_id v) = Some v \<and>
    (\<forall>k n. neighbours table k = Some n \<longrightarrow> nb_last_seen v \<le> nb_last_seen n) \<and>
    neighbours table' = (neighbours table)(nb_node_id v := None,
      nid \<mapsto> updated_entry now cfg nid rssi snr ttl table)"
proof -
  let ?n = "updated_entry now cfg nid rssi snr ttl table"
  from update_slot [OF assms(1), of now cfg nid rssi snr ttl] assms(2,3) obtain e where
    e: "e < 16" and u: "ts_routing_table_update now cfg nid rssi snr ttl table = (0, table[e := ?n])"
    and o: "nb_occupied (table ! e)"
    and old: "\<forall>i < 16. nb_last_seen (table ! e) \<le> nb_last_seen (table ! i)"
    by auto
  have "nb_last_seen (table ! e) \<le> nb_last_seen n" if "neighbours table k = Some n" for k n
    using neighbours_nth_ex [OF assms(1) that] old by auto
  with put_neighbour [OF assms(1) e _ _ disjI1 [OF assms(2)], of ?n] u o neighbours_nth [OF assms(1) e o]
  show ?thesis by auto
qed

text \<open>(C23) Recording an unknown neighbour in a full table replaces exactly one entry, and it is
  one with the smallest time stamp; the call still reports success, so the error branch
  \<open>-ENOSPC\<close> is never taken.\<close>

theorem table_update_evicts_oldest:
  assumes "table_ok table" "neighbours table nid = None" "table_full table"
  shows "\<exists>table' v. ts_routing_table_update now cfg nid rssi snr ttl table = (0, table') \<and>
    table_ok table' \<and> neighbours table (nb_node_id v) = Some v \<and>
    (\<forall>k n. neighbours table k = Some n \<longrightarrow> nb_last_seen v \<le> nb_last_seen n) \<and>
    neighbours table' = (neighbours table)(nb_node_id v := None,
      nid \<mapsto> updated_entry now cfg nid rssi snr ttl table)"
  by (rule update_evicts [OF assms])

text \<open>Both cases in one: what recording a neighbour makes of the table.\<close>

definition records_neighbour :: "uint16_t \<Rightarrow> ts_neighbor \<Rightarrow> neighbor_table \<Rightarrow> neighbor_table \<Rightarrow> bool" where
  "records_neighbour nid e table table' \<longleftrightarrow>
     (if neighbours table nid \<noteq> None \<or> \<not> table_full table then neighbours table' = (neighbours table)(nid \<mapsto> e)
      else \<exists>v. neighbours table (nb_node_id v) = Some v \<and>
        (\<forall>k n. neighbours table k = Some n \<longrightarrow> nb_last_seen v \<le> nb_last_seen n) \<and>
        neighbours table' = (neighbours table)(nb_node_id v := None, nid \<mapsto> e))"

lemma update_records:
  assumes "table_ok table"
  shows "records_neighbour nid (updated_entry now cfg nid rssi snr ttl table) table
    (snd (ts_routing_table_update now cfg nid rssi snr ttl table))"
proof (cases "neighbours table nid \<noteq> None \<or> \<not> table_full table")
  case True
  with update_known [OF assms, of nid now cfg rssi snr ttl] show ?thesis by (auto simp: records_neighbour_def)
next
  case False
  with update_evicts [OF assms, of nid now cfg rssi snr ttl] show ?thesis by (auto simp: records_neighbour_def)
qed

text \<open>A full table: nodes 0 to 15, node 3 not heard of for longest.\<close>

definition crowded_table :: neighbor_table where
  "crowded_table =
    map (\<lambda>i. \<lparr>nb_node_id = i, nb_rssi = -90, nb_snr = 4, nb_direct = False,
              nb_last_seen = (if i = 3 then 10 else 50), nb_occupied = True\<rparr>)
      [0, 1, 2, 3, 4, 5, 6, 7, 8, 9, 10, 11, 12, 13, 14, 15]"

lemma crowded_table_ok: "table_ok crowded_table" "table_full crowded_table"
  "neighbours crowded_table 77 = None" "neighbours crowded_table 4 \<noteq> None"
  "neighbours crowded_table 3 \<noteq> None"
proof -
  have "distinct (map nb_node_id crowded_table)" by (simp add: crowded_table_def)
  then show "table_ok crowded_table"
    by (simp add: table_ok_def slot_distinct_keys)
      (simp add: crowded_table_def TS_ROUTING_TABLE_SIZE_def)
qed (simp_all add: table_full_def neighbours_def slot_lookup_None crowded_table_def)

theorem table_update_evicts_oldest_witness:
  "\<exists>table'. ts_routing_table_update 60 TS_CONFIG_DEFAULTS 77 (-80) 9 2 crowded_table = (0, table') \<and>
    neighbours table' 77 \<noteq> None"
  using table_update_evicts_oldest [OF crowded_table_ok(1,3,2), of 60 TS_CONFIG_DEFAULTS "-80" 9 2]
  by auto

section \<open>Ageing and counting\<close>

definition is_stale :: "uint32_t \<Rightarrow> uint32_t \<Rightarrow> ts_neighbor \<Rightarrow> bool" where
  "is_stale now max_age_s n \<longleftrightarrow> nb_occupied n \<and> max_age_s \<le> now - nb_last_seen n"

lemma age_loop:
  "n \<le> length table \<Longrightarrow>
   foldl (age_slot now m) (0, table) [0..<n] =
     (int (length (filter (is_stale now m) (take n table))),
      map (\<lambda>e. if is_stale now m e then e\<lparr>nb_occupied := False\<rparr> else e) (take n table)
        @ drop n table)"
proof (induction n)
  case (Suc n)
  let ?f = "\<lambda>e. if is_stale now m e then e\<lparr>nb_occupied := False\<rparr> else e"
  let ?t = "map ?f (take n table) @ drop n table"
  have n: "n < length table" and len: "length (map ?f (take n table)) = n" using Suc.prems by auto
  have at: "?t ! n = table ! n" using n by (simp add: nth_append)
  have d: "drop n table = table ! n # drop (Suc n) table"
    using n by (simp add: Cons_nth_drop_Suc)
  have upd: "?t[n := x] = map ?f (take n table) @ x # drop (Suc n) table" for x
    using len d by (simp add: list_update_append)
  have "foldl (age_slot now m) (0, table) [0..<Suc n] =
      age_slot now m (int (length (filter (is_stale now m) (take n table))), ?t) n"
    using Suc by simp
  also have "\<dots> = (int (length (filter (is_stale now m) (take (Suc n) table))),
      map ?f (take (Suc n) table) @ drop (Suc n) table)"
    unfolding age_slot_def prod.case at upd
    using n d by (simp add: is_stale_def take_Suc_conv_app_nth)
  finally show ?case .
qed simp

lemma age_seconds_map:
  assumes "length table = 16"
  shows "ts_routing_table_age_seconds now m table =
    (int (length (filter (is_stale now m) table)),
     map (\<lambda>e. if is_stale now m e then e\<lparr>nb_occupied := False\<rparr> else e) table)"
  using age_loop [of 16 table now m] assms
  by (simp only: ts_routing_table_age_seconds_def TS_ROUTING_TABLE_SIZE_def) simp

lemma age_ok [inv_intros]:
  assumes "table_ok table"
  shows "table_ok (snd (ts_routing_table_age_seconds now m table))"
  using nb.release_where_distinct [OF table_okD(2) [OF assms]] table_okD(1) [OF assms]
  by (simp add: age_seconds_map table_ok_def TS_ROUTING_TABLE_SIZE_def)

lemma count_loop:
  "n \<le> length table \<Longrightarrow>
   foldl (\<lambda>c i. if nb_occupied (table ! i) then c + 1 else c) 0 [0..<n] =
     (of_nat (slot_count nb_occupied (take n table)) :: uint32_t)"
  by (induction n) (auto simp: slot_count_def take_Suc_conv_app_nth)

lemma count_slots:
  assumes "length table = 16"
  shows "ts_routing_table_count table = of_nat (slot_count nb_occupied table)"
  using count_loop [of 16 table] assms
  by (simp only: ts_routing_table_count_def TS_ROUTING_TABLE_SIZE_def) simp

lemma slot_count_neighbours:
  assumes "table_ok table"
  shows "slot_count nb_occupied table = card (dom (neighbours table))"
proof -
  let ?I = "{i. i < length table \<and> nb_occupied (table ! i)}"
  have "inj_on (\<lambda>i. nb_node_id (table ! i)) ?I"
    using slot_distinctD [OF table_okD(2) [OF assms]] by (auto intro: inj_onI)
  moreover have "(\<lambda>i. nb_node_id (table ! i)) ` ?I = dom (neighbours table)"
    using table_okD(1) [OF assms] neighbours_nth [OF assms] neighbours_nth_ex [OF assms]
    by (fastforce simp: image_iff dom_def)
  ultimately have "card ?I = card (dom (neighbours table))" by (metis card_image)
  then show ?thesis by (simp add: slot_count_def length_filter_conv_card)
qed

text \<open>(C24) Ageing removes exactly the entries whose age, the difference of the 32-bit clock and
  the time stamp, has reached the limit (also when the clock has wrapped in between), leaves
  all others as they are, and returns how many it removed.\<close>

theorem table_ageing_removes_stale:
  assumes "table_ok table"
  shows "\<exists>table'. ts_routing_table_age_seconds now m table =
      (int (card (dom (neighbours table)) - card (dom (neighbours table'))), table') \<and>
    table_ok table' \<and>
    (\<forall>k. neighbours table' k = (case neighbours table k of
        None \<Rightarrow> None | Some n \<Rightarrow> if m \<le> now - nb_last_seen n then None else Some n))"
proof -
  let ?t = "snd (ts_routing_table_age_seconds now m table)"
  note t = table_okD [OF assms] and ok' = age_ok [OF assms, of now m]
  have "neighbours ?t k = (case neighbours table k of
      None \<Rightarrow> None | Some n \<Rightarrow> if is_stale now m n then None else Some n)" for k
    using nb.lookup_release_where [OF t(2), of "is_stale now m" k]
    by (simp add: age_seconds_map [OF t(1)] neighbours_def)
  then have look: "neighbours ?t k = (case neighbours table k of
      None \<Rightarrow> None | Some n \<Rightarrow> if m \<le> now - nb_last_seen n then None else Some n)" for k
    using neighbours_nth_ex [OF assms, of k] by (auto simp: is_stale_def split: option.splits)
  have "slot_count nb_occupied ?t + length (filter (is_stale now m) table) = slot_count nb_occupied table"
    using nb.count_release_where [of "is_stale now m" table]
    by (simp add: age_seconds_map [OF t(1)] is_stale_def conj_commute cong: filter_cong)
  then have "fst (ts_routing_table_age_seconds now m table) =
      int (card (dom (neighbours table)) - card (dom (neighbours ?t)))"
    unfolding slot_count_neighbours [OF assms, symmetric] slot_count_neighbours [OF ok', symmetric]
    by (simp add: age_seconds_map [OF t(1)])
  with look ok' show ?thesis by (intro exI [of _ ?t]) (simp add: prod_eq_iff)
qed

theorem table_ageing_removes_stale_witness:
  "\<exists>table'. snd (ts_routing_table_age_seconds 310 300 crowded_table) = table' \<and>
     neighbours table' 3 = None \<and> neighbours table' 4 \<noteq> None"
proof -
  have "neighbours crowded_table 3 = Some (crowded_table ! 3)"
    "neighbours crowded_table 4 = Some (crowded_table ! 4)"
    using neighbours_nth [OF crowded_table_ok(1), of 3] neighbours_nth [OF crowded_table_ok(1), of 4]
    by (simp_all add: crowded_table_def)
  moreover have "nb_last_seen (crowded_table ! 3) = 10" "nb_last_seen (crowded_table ! 4) = 50"
    by (simp_all add: crowded_table_def)
  ultimately show ?thesis
    using table_ageing_removes_stale [OF crowded_table_ok(1), of 310 300] by auto
qed

section \<open>All reachable tables\<close>

text \<open>The table as the receive thread and the ageing work item use it, in any order.\<close>

inductive table_reachable :: "neighbor_table \<Rightarrow> bool" where
  init: "table_reachable ts_routing_table_init"
| update: "table_reachable t \<Longrightarrow>
    table_reachable (snd (ts_routing_table_update now cfg nid rssi snr ttl t))"
| age: "table_reachable t \<Longrightarrow> table_reachable (snd (ts_routing_table_age_seconds now m t))"

lemma table_reachable_ok: "table_reachable t \<Longrightarrow> table_ok t"
  by (induction rule: table_reachable.induct) (simp_all add: table_ok_init update_ok age_ok)

text \<open>(C25) In every table the firmware can reach, no node occupies two slots, the reported
  count is the number of distinct neighbours and at most 16, and no update fails.\<close>

theorem table_invariant:
  assumes "table_reachable t"
  shows "table_ok t \<and>
    unat (ts_routing_table_count t) = card (dom (neighbours t)) \<and>
    unat (ts_routing_table_count t) \<le> TS_ROUTING_TABLE_SIZE \<and>
    fst (ts_routing_table_update now cfg nid rssi snr ttl t) = 0"
proof -
  note ok = table_reachable_ok [OF assms]
  have "slot_count nb_occupied t \<le> 16"
    using slot_count_le [of nb_occupied t] table_okD(1) [OF ok] by simp
  then show ?thesis
    using ok update_ok [OF ok] slot_count_neighbours [OF ok] count_slots [OF table_okD(1) [OF ok]]
    by (simp add: unat_of_nat_u32 TS_ROUTING_TABLE_SIZE_def)
qed

theorem table_invariant_witness:
  "table_ok (snd (ts_routing_table_update 60 TS_CONFIG_DEFAULTS 7 (-80) 9 5 ts_routing_table_init)) \<and>
   fst (ts_routing_table_update 61 TS_CONFIG_DEFAULTS 8 (-80) 9 5
     (snd (ts_routing_table_update 60 TS_CONFIG_DEFAULTS 7 (-80) 9 5 ts_routing_table_init))) = 0"
  using table_invariant [OF table_reachable.update [OF table_reachable.init]] by blast

end
