(* ===== verification/Sensors.thy ===== *)
theory Sensors
  imports Platform Routing
begin

text \<open>
  Sensor acquisition and publication logging: \<open>src/sensors/\<close> (manager, BME280 and mock
  backend) and \<open>src/logging/logging.c\<close>.
\<close>

section \<open>Logging of publication results\<close>

datatype log_line =
    LOG_ERR string
  | LOG_DBG string

definition log_chan_pub_ret :: "int \<Rightarrow> log_line" where
  "log_chan_pub_ret ret =
    (if ret = ENOMSG then
       LOG_ERR ''The message is invalid based on the validator function or some of the observers could not receive the notification.''
     else if ret = EBUSY then LOG_ERR ''The channel is busy.''
     else if ret = EAGAIN then LOG_ERR ''Waiting period timed out.''
     else if ret = EFAULT then
       LOG_ERR ''A parameter is incorrect, the notification could not be sent to one or more observer, or the function context is invalid (inside an ISR).''
     else LOG_DBG ''Message published'')"

section \<open>Backends\<close>

text \<open>\<open>val.val1 * c + val.val2 / d\<close>, with the division of C, truncating towards zero.\<close>

definition scaled_value :: "int \<Rightarrow> int \<Rightarrow> sensor_value \<Rightarrow> int32_t" where
  "scaled_value c d val = word_of_int (sint (val1 val) * c + sint (val2 val) sdiv d)"

text \<open>The BME280 backend writes the readings it got before an error.\<close>

definition ts_sensor_backend_read_bme280 ::
  "'s sensor_api \<Rightarrow> ts_msg_telemetry \<Rightarrow> 's \<Rightarrow> int \<times> ts_msg_telemetry \<times> 's" where
  "ts_sensor_backend_read_bme280 D p_tel s =
    (if \<not> sensor_ready D s then (-ENODEV, p_tel, s)
     else case sensor_sample_fetch D s of (ret, s) \<Rightarrow>
       if ret \<noteq> 0 then (ret, p_tel, s)
       else case sensor_channel_get D SENSOR_CHAN_AMBIENT_TEMP s of (ret, val) \<Rightarrow>
         if ret \<noteq> 0 then (ret, p_tel, s)
         else let p_tel = p_tel\<lparr>tel_temperature :=
                scaled_value 100 10000 val\<rparr> in
         case sensor_channel_get D SENSOR_CHAN_HUMIDITY s of (ret, val) \<Rightarrow>
           if ret \<noteq> 0 then (ret, p_tel, s)
           else let p_tel = p_tel\<lparr>tel_humidity :=
                  scaled_value 100 10000 val\<rparr> in
           case sensor_channel_get D SENSOR_CHAN_PRESS s of (ret, val) \<Rightarrow>
             if ret \<noteq> 0 then (ret, p_tel, s)
             else let p_tel = p_tel\<lparr>tel_pressure :=
                    scaled_value 1000 1000 val\<rparr> in
             (0, p_tel, s))"

text \<open>The mock backend; \<open>sys_rand32_get\<close> is a parameter.\<close>

definition ts_sensor_backend_read_mock ::
  "('s \<Rightarrow> uint32_t \<times> 's) \<Rightarrow> ts_msg_telemetry \<Rightarrow> 's \<Rightarrow> int \<times> ts_msg_telemetry \<times> 's" where
  "ts_sensor_backend_read_mock sys_rand32_get p_tel s =
    (case sys_rand32_get s of (r1, s) \<Rightarrow>
     case sys_rand32_get s of (r2, s) \<Rightarrow>
     case sys_rand32_get s of (r3, s) \<Rightarrow>
       (0, p_tel\<lparr>tel_temperature := r1 mod 10001 - 4000,
                 tel_humidity := r2 div 1000000,
                 tel_pressure := r3 div 10000\<rparr>, s))"

section \<open>The sensor manager\<close>

text \<open>
  \<open>read\<close> is the backend the build selects, \<open>pub\<close> is \<open>zbus_chan_pub\<close> on the outgoing
  channel. The header is prepared before the reading is taken.
\<close>

definition periodic_work_handler ::
  "(ts_msg_telemetry \<Rightarrow> 's \<Rightarrow> int \<times> ts_msg_telemetry \<times> 's) \<Rightarrow>
   (ts_msg_lora_outgoing \<Rightarrow> 'z \<Rightarrow> int \<times> 'z) \<Rightarrow> uint32_t \<Rightarrow> ts_config \<Rightarrow>
   routing_state \<times> 's \<times> 'z \<Rightarrow> routing_state \<times> 's \<times> 'z" where
  "periodic_work_handler read pub now cfg st =
    (case st of (rs, s, z) \<Rightarrow>
     let tel = \<lparr>tel_timestamp = now, tel_temperature = 0, tel_humidity = 0, tel_pressure = 0\<rparr> in
     case ts_routing_prepare_header cfg zero_header TS_ROUTING_BROADCAST_ADDR rs of (route, rs) \<Rightarrow>
     case read tel s of (ret, tel, s) \<Rightarrow>
       if ret \<noteq> 0 then (rs, s, z)
       else (rs, s, snd (pub \<lparr>msg_route = route, msg_data = Telemetry tel\<rparr> z)))"

section \<open>Properties\<close>

text \<open>A quantity in millionths, split as the sensor API documents.\<close>

definition split_micro :: "int \<Rightarrow> sensor_value" where
  "split_micro q = \<lparr>val1 = word_of_int (q sdiv 1000000), val2 = word_of_int (q smod 1000000)\<rparr>"

lemma div_scale:
  assumes "0 < c" "0 < d" "0 \<le> (q :: int)"
  shows "(q div (c * d)) * c + (q mod (c * d)) div d = q div d"
proof -
  have "q div (c * d) = q div d div c"
    using assms by (simp add: zdiv_zmult2_eq mult.commute [of c d])
  moreover have "q mod (c * d) = d * (q div d mod c) + q mod d"
    using assms by (simp add: zmod_zmult2_eq mult.commute [of c d])
  moreover have "(d * (q div d mod c) + q mod d) div d = q div d mod c"
    using assms by simp
  ultimately show ?thesis by (simp add: div_mult_mod_eq)
qed

text \<open>Scaling down the integer part and the fraction separately, as the backend does, truncates
  the quantity towards zero.\<close>

lemma sdiv_scale:
  assumes "0 < c" "0 < d"
  shows "(q sdiv (c * d)) * c + (q smod (c * d)) sdiv d = q sdiv (d :: int)"
proof -
  have pos: "p sdiv b = p div b" "p smod b = p mod b" if "0 \<le> p" "0 < b" for p b :: int
    using that by (auto simp: signed_divide_int_def signed_modulo_int_def sgn_if minus_div_mult_eq_mod
        zero_less_mult_iff)
  have neg: "(- p) sdiv b = - (p sdiv b)" "(- p) smod b = - (p smod b)" for p b :: int
    by (simp_all add: signed_divide_int_def signed_modulo_int_def)
  have nonneg: "(p sdiv (c * d)) * c + (p smod (c * d)) sdiv d = p sdiv d" if "0 \<le> p" for p
    using div_scale [OF assms that] pos [OF that] pos [of "p mod (c * d)" d] assms by simp
  show ?thesis
  proof (cases "0 \<le> q")
    case False
    with nonneg [of "- q"] show ?thesis by (simp add: neg)
  qed (rule nonneg)
qed

lemma sint_of_int_small: "-2147483648 \<le> k \<Longrightarrow> k < 2147483648 \<Longrightarrow> sint (word_of_int k :: int32_t) = k"
  by transfer (simp add: signed_take_bit_int_eq_self)

lemma split_micro_scaled:
  assumes "\<bar>q\<bar> < 2147483648000000" "0 < d" "c * d = 1000000" "0 < c"
  shows "scaled_value c d (split_micro q) = word_of_int (q sdiv d)"
proof -
  have "\<bar>q sdiv 1000000\<bar> < 2147483648"
    using assms(1) by (simp add: signed_divide_int_def abs_mult sgn_if) arith
  moreover have "\<bar>q smod 1000000\<bar> < 1000000"
    by (simp add: signed_modulo_int_def signed_divide_int_def sgn_if)
  ultimately have "sint (val1 (split_micro q)) = q sdiv 1000000" "sint (val2 (split_micro q)) = q smod 1000000"
    by (simp_all add: split_micro_def sint_of_int_small abs_less_iff)
  with sdiv_scale [OF assms(4,2), of q] assms(3) show ?thesis by (simp only: scaled_value_def)
qed

text \<open>(C32) The BME280 backend reports a reading in the units of the message: when the device gives
  temperature, humidity and pressure as millionths of a degree, a percent and a kilopascal,
  the message holds hundredths of a degree and of a percent, and pascals, each truncated
  towards zero; the time stamp is kept.\<close>

theorem bme280_reading_scaled:
  assumes "sensor_ready D s" "sensor_sample_fetch D s = (0, s')"
    and "sensor_channel_get D SENSOR_CHAN_AMBIENT_TEMP s' = (0, split_micro t)"
    and "sensor_channel_get D SENSOR_CHAN_HUMIDITY s' = (0, split_micro h)"
    and "sensor_channel_get D SENSOR_CHAN_PRESS s' = (0, split_micro p)"
    and "\<bar>t\<bar> < 21474836480000" "0 \<le> h" "h < 21474836480000" "0 \<le> p" "p < 2147483648000"
  shows "\<exists>tel'. ts_sensor_backend_read_bme280 D tel s = (0, tel', s') \<and>
    sint (tel_temperature tel') = t sdiv 10000 \<and>
    uint (tel_humidity tel') = h div 10000 \<and>
    uint (tel_pressure tel') = p div 1000 \<and>
    tel_timestamp tel' = tel_timestamp tel"
proof -
  have "\<bar>t\<bar> < 2147483648000000" "\<bar>h\<bar> < 2147483648000000" "\<bar>p\<bar> < 2147483648000000"
    using assms(6-10) by arith+
  note scaled = split_micro_scaled [of t 10000 100, OF this(1)]
    split_micro_scaled [of h 10000 100, OF this(2)] split_micro_scaled [of p 1000 1000, OF this(3)]
  have "sint (word_of_int (t sdiv 10000) :: int32_t) = t sdiv 10000"
  proof -
    have "\<bar>t sdiv 10000\<bar> < 2147483648"
      using assms(6) by (simp add: signed_divide_int_def abs_mult sgn_if) arith
    then show ?thesis by (simp add: sint_of_int_small abs_less_iff)
  qed
  moreover have "uint (word_of_int (h sdiv 10000) :: uint32_t) = h div 10000"
    using assms(7,8) by (simp add: signed_divide_int_def sgn_if uint_word_of_int)
  moreover have "uint (word_of_int (p sdiv 1000) :: uint32_t) = p div 1000"
    using assms(9,10) by (simp add: signed_divide_int_def sgn_if uint_word_of_int)
  ultimately show ?thesis
    using assms(1-5) scaled by (simp add: ts_sensor_backend_read_bme280_def Let_def)
qed

text \<open>A device at \<open>-5.037 \<degree>C\<close>, \<open>65.439 %\<close> and \<open>101.3259 kPa\<close>.\<close>

definition ref_bme280 :: "unit sensor_api" where
  "ref_bme280 = \<lparr> sensor_ready = (\<lambda>_. True), sensor_sample_fetch = (\<lambda>s. (0, s)),
     sensor_channel_get = (\<lambda>c s. (0, split_micro (case c of
       SENSOR_CHAN_AMBIENT_TEMP \<Rightarrow> -5037000 | SENSOR_CHAN_HUMIDITY \<Rightarrow> 65439000
     | SENSOR_CHAN_PRESS \<Rightarrow> 101325900))) \<rparr>"

theorem bme280_reading_scaled_witness:
  "\<exists>tel'. ts_sensor_backend_read_bme280 ref_bme280
      \<lparr>tel_timestamp = 7, tel_temperature = 0, tel_humidity = 0, tel_pressure = 0\<rparr> () = (0, tel', ()) \<and>
    sint (tel_temperature tel') = -503 \<and> uint (tel_humidity tel') = 6543 \<and>
    uint (tel_pressure tel') = 101325 \<and> tel_timestamp tel' = 7"
  using bme280_reading_scaled [of ref_bme280 "()" "()" "-5037000" 65439000 101325900
      "\<lparr>tel_timestamp = 7, tel_temperature = 0, tel_humidity = 0, tel_pressure = 0\<rparr>"]
  by (simp add: ref_bme280_def signed_divide_int_def)

text \<open>The mock backend always succeeds, with readings in fixed ranges: \<open>-40.00\<close> to \<open>60.00\<close>
  degrees, and no value that exceeds what the random word can give after division.\<close>

lemma mock_reading_ranges:
  "\<exists>tel' s'. ts_sensor_backend_read_mock rand tel s = (0, tel', s') \<and>
    -4000 \<le> sint (tel_temperature tel') \<and> sint (tel_temperature tel') \<le> 6000 \<and>
    uint (tel_humidity tel') \<le> 4294 \<and> uint (tel_pressure tel') \<le> 429496 \<and>
    tel_timestamp tel' = tel_timestamp tel"
proof -
  obtain r1 s1 where r1: "rand s = (r1, s1)" by fastforce
  obtain r2 s2 where r2: "rand s1 = (r2, s2)" by fastforce
  obtain r3 s3 where r3: "rand s2 = (r3, s3)" by fastforce
  have r: "0 \<le> uint r1 mod 10001" "uint r1 mod 10001 < 10001" by simp_all
  have "r1 mod 10001 - 4000 = word_of_int (uint r1 mod 10001 - 4000)"
    by (simp add: word_mod_def)
  then have "sint (r1 mod 10001 - 4000) = uint r1 mod 10001 - 4000"
    using r by (simp only: sint_of_int_small)
  with r have t: "-4000 \<le> sint (r1 mod 10001 - 4000) \<and> sint (r1 mod 10001 - 4000) \<le> 6000"
    by linarith
  have "uint r2 < 4294967296" "uint r3 < 4294967296" using uint_lt2p [of r2] uint_lt2p [of r3] by simp_all
  then have "uint (r2 div 1000000) \<le> 4294" "uint (r3 div 10000) \<le> 429496"
    by (simp_all add: uint_div_distrib)
  with t r1 r2 r3 show ?thesis by (simp add: ts_sensor_backend_read_mock_def)
qed

text \<open>No failed publication is ever reported: \<open>zbus_chan_pub\<close> returns 0 or a negative error
  code, the function compares with the positive codes, and so it logs success for every
  result it can receive.\<close>

lemma publication_errors_logged_as_success:
  assumes "ret \<le> 0"
  shows "log_chan_pub_ret ret = LOG_DBG ''Message published''"
  using assms by (simp add: log_chan_pub_ret_def)

end
