(* ===== verification/Lora.thy ===== *)
theory Lora
  imports Auth Cbor Contention Routing_Table Sensors
begin

text \<open>
  The radio tasks: \<open>src/lora/lora.h\<close> and \<open>src/lora/lora.c\<close>. \<open>platform\<close> collects the
  interfaces of the code outside the repository and the build's key settings, \<open>node\<close> the
  state of all modules. Of the kernel's objects the node keeps the semaphore, the two
  timers (first delay and period in seconds), whether the two work items of \<open>main.c\<close> are
  submitted, whether the radio tasks have entered their loop, and where \<open>main\<close> is. An
  iteration of a task's endless loop is one function on the node; \<open>continue\<close> ends it. The clock is an argument.
\<close>

section \<open>Platform and node\<close>

record ('e, 'd, 'k, 'n, 'w, 'z, 'l, 's) platform =
  p_zcbor :: "('e, 'd) zcbor_api"
  p_psa :: "'k psa_api"
  p_settings :: "'n settings_api"
  p_work :: "'w k_work_api"
  p_zbus :: "'z zbus_api"
  p_lora :: "'l lora_driver_api"
  p_sensor :: "ts_msg_telemetry \<Rightarrow> 's \<Rightarrow> int \<times> ts_msg_telemetry \<times> 's"
  p_network_key :: string
  p_key_id :: int

text \<open>Where the main thread is: before the call of \<open>main\<close> that is named, in the loop at its end, or
  returned.\<close>

datatype main_pc = Main_Auth | Main_Config | Main_Routing | Main_Table | Main_Sensor_Timer | Main_Age_Timer
  | Main_Loop | Main_Returned int

record ('k, 'n, 'w, 'z, 'l, 's) node =
  n_auth :: "'k auth_state"
  n_config :: "'n config_state"
  n_routing :: routing_state
  n_table :: neighbor_table
  n_pool :: "'w contention_state"
  n_bus :: 'z
  n_radio :: 'l
  n_sensor :: 's
  lora_ready_sem :: bool
  sensor_periodic_timer :: "(uint32_t \<times> uint32_t) option"
  routing_table_age_timer :: "(uint32_t \<times> uint32_t) option"
  sensor_take_reading :: bool
  routing_table_age_work :: bool
  lora_out_running :: bool
  lora_in_running :: bool
  main_pc :: main_pc

section \<open>Initialisation\<close>

definition lora_populate_modem_config :: "ts_config \<Rightarrow> lora_modem_config" where
  "lora_populate_modem_config cfg =
    \<lparr> mc_frequency = lora_frequency cfg,
      mc_bandwidth = ucast (lora_bw cfg),
      mc_datarate = ucast (lora_sf cfg),
      mc_coding_rate = ucast (lora_cr cfg),
      mc_iq_inverted = False,
      mc_public_network = False,
      mc_tx_power = lora_tx_power cfg,
      mc_tx = True \<rparr>"

text \<open>The semaphore has the limit 1, so it is a flag.\<close>

definition lora_init ::
  "('e, 'd, 'k, 'n, 'w, 'z, 'l, 's) platform \<Rightarrow> ('k, 'n, 'w, 'z, 'l, 's) node \<Rightarrow> int \<times> ('k, 'n, 'w, 'z, 'l, 's) node" where
  "lora_init E nd =
    (if \<not> lora_ready (p_lora E) (n_radio nd) then (-ENODEV, nd)
     else case lora_config (p_lora E) (lora_populate_modem_config (ts_config_get (n_config nd))) (n_radio nd) of
       (ret, l) \<Rightarrow>
         let nd = nd\<lparr>n_radio := l\<rparr> in
         if ret < 0 then (-EIO, nd) else (0, nd\<lparr>lora_ready_sem := True\<rparr>))"

text \<open>Both tasks begin by taking the semaphore and giving it back; while it is not available they
  block (\<open>None\<close>).\<close>

definition pass_ready_sem :: "('k, 'n, 'w, 'z, 'l, 's) node \<Rightarrow> ('k, 'n, 'w, 'z, 'l, 's) node option" where
  "pass_ready_sem nd =
    (if lora_ready_sem nd
     then let nd = nd\<lparr>lora_ready_sem := False\<rparr> in Some (nd\<lparr>lora_ready_sem := True\<rparr>)
     else None)"

section \<open>Transmission\<close>

text \<open>The size of the notification queue of the subscriber \<open>ts_lora_out_sub\<close>.\<close>

definition LORA_OUT_SUB_QUEUE_SIZE :: nat where "LORA_OUT_SUB_QUEUE_SIZE = 2"

text \<open>The prologue of the transmit task.\<close>

definition lora_out_start :: "('k, 'n, 'w, 'z, 'l, 's) node \<Rightarrow> ('k, 'n, 'w, 'z, 'l, 's) node option" where
  "lora_out_start nd = map_option (\<lambda>nd. nd\<lparr>lora_out_running := True\<rparr>) (pass_ready_sem nd)"

text \<open>From a message to the packet on air: the part between reading the channel and sending.\<close>

definition lora_out_packet ::
  "('e, 'd, 'k, 'n, 'w, 'z, 'l, 's) platform \<Rightarrow> 'k auth_state \<Rightarrow> ts_msg_lora_outgoing \<Rightarrow> int + bytes" where
  "lora_out_packet E auth msg =
    (let msg = msg\<lparr>msg_route := (msg_route msg)\<lparr>rh_key_id := ts_auth_get_key_id (p_key_id E)\<rparr>\<rparr> in
     case cbor_serialize (p_zcbor E) msg (ZBOR_ENCODE_BUFFER_SIZE - TS_AUTH_TAG_SIZE) of
       Inl ret \<Rightarrow> Inl ret
     | Inr buf \<Rightarrow>
         (case ts_auth_sign (p_psa E) (Some buf) (length buf) auth of
            Inl ret \<Rightarrow> Inl ret
          | Inr tag \<Rightarrow> Inr (buf @ tag)))"

definition lora_out_iteration ::
  "('e, 'd, 'k, 'n, 'w, 'z, 'l, 's) platform \<Rightarrow> ('k, 'n, 'w, 'z, 'l, 's) node \<Rightarrow> ('k, 'n, 'w, 'z, 'l, 's) node" where
  "lora_out_iteration E nd =
    (case zbus_sub_wait (p_zbus E) (n_bus nd) of (ret, chan, z) \<Rightarrow>
     let nd = nd\<lparr>n_bus := z\<rparr> in
     if ret \<noteq> 0 then nd
     else if chan = ts_lora_out_chan then
       (case zbus_chan_read_out (p_zbus E) (n_bus nd) of (ret, msg, z) \<Rightarrow>
        let nd = nd\<lparr>n_bus := z\<rparr> in
        if ret \<noteq> 0 then nd
        else case lora_out_packet E (n_auth nd) msg of
          Inl _ \<Rightarrow> nd
        | Inr pkt \<Rightarrow> nd\<lparr>n_radio := snd (lora_send (p_lora E) pkt (length pkt) (n_radio nd))\<rparr>)
     else nd)"

section \<open>Reception\<close>

text \<open>A configuration request: apply it and publish the acknowledgement.\<close>

definition apply_config_set ::
  "('e, 'd, 'k, 'n, 'w, 'z, 'l, 's) platform \<Rightarrow> ts_route_header \<Rightarrow> ts_msg_config_set \<Rightarrow>
   ('k, 'n, 'w, 'z, 'l, 's) node \<Rightarrow> ('k, 'n, 'w, 'z, 'l, 's) node" where
  "apply_config_set E route c nd =
    (case ts_config_set (p_settings E) (cstr (cs_key c)) (cs_value c) (n_config nd) of (cfg_ret, conf) \<Rightarrow>
     let nd = nd\<lparr>n_config := conf\<rparr>;
         key = (strncpy zero_key (cs_key c) (TS_MSG_CONFIG_KEY_MAX - 1))[TS_MSG_CONFIG_KEY_MAX - 1 := NUL];
         data = Config_Ack \<lparr>ca_key = key, ca_value = cs_value c, ca_result = word_of_int cfg_ret\<rparr>
     in case ts_routing_prepare_header (ts_config_get (n_config nd)) zero_header (rh_src route) (n_routing nd) of
       (hdr, rs) \<Rightarrow>
         let nd = nd\<lparr>n_routing := rs\<rparr>
         in nd\<lparr>n_bus := snd (zbus_chan_pub_out (p_zbus E) \<lparr>msg_route = hdr, msg_data = data\<rparr> (n_bus nd))\<rparr>)"

definition forward_message ::
  "('e, 'd, 'k, 'n, 'w, 'z, 'l, 's) platform \<Rightarrow> ts_msg_lora_outgoing \<Rightarrow> int16_t \<Rightarrow>
   ('k, 'n, 'w, 'z, 'l, 's) node \<Rightarrow> ('k, 'n, 'w, 'z, 'l, 's) node" where
  "forward_message E fwd rssi nd =
    (case ts_routing_decrement_ttl (msg_route fwd) of (ret, hdr) \<Rightarrow>
     if ret = 0 \<and> rh_ttl hdr > 0 then
       nd\<lparr>n_pool := snd (ts_contention_schedule (p_work E) (ts_config_get (n_config nd))
            (fwd\<lparr>msg_route := hdr\<rparr>) rssi (n_pool nd))\<rparr>
     else nd)"

text \<open>A message whose packet was authentic and well-formed.\<close>

definition lora_in_message ::
  "('e, 'd, 'k, 'n, 'w, 'z, 'l, 's) platform \<Rightarrow> uint32_t \<Rightarrow> ts_msg_lora_incoming \<Rightarrow>
   ('k, 'n, 'w, 'z, 'l, 's) node \<Rightarrow> ('k, 'n, 'w, 'z, 'l, 's) node" where
  "lora_in_message E now im nd =
    (let msg = in_msg im; route = msg_route msg in
     if rh_key_id route \<noteq> ts_auth_get_key_id (p_key_id E) then nd
     else if rh_src route = ts_routing_get_node_id (n_routing nd) then nd
     else if ts_routing_is_duplicate (n_routing nd) route then
       nd\<lparr>n_pool := snd (ts_contention_cancel (p_work E) (rh_src route) (rh_msg_id route) (n_pool nd))\<rparr>
     else
       let nd = nd\<lparr>n_routing := ts_routing_mark_seen route (n_routing nd)\<rparr>;
           nd = nd\<lparr>n_table := snd (ts_routing_table_update now (ts_config_get (n_config nd)) (rh_src route)
                    (in_rssi im) (in_snr im) (rh_ttl route) (n_table nd))\<rparr>;
           for_us = ts_routing_is_for_us (n_routing nd) route
       in case (for_us, msg_data msg) of
         (True, Config_Set c) \<Rightarrow> apply_config_set E route c nd
       | _ \<Rightarrow>
           (let nd = (if for_us then nd\<lparr>n_bus := snd (zbus_chan_pub_in (p_zbus E) im (n_bus nd))\<rparr> else nd)
            in if msg_type (msg_data msg) = TS_MSG_CONFIG_SET \<or> msg_type (msg_data msg) = TS_MSG_CONFIG_ACK
               then nd
               else forward_message E msg (in_rssi im) nd))"

text \<open>A received packet of \<open>len\<close> bytes in the receive buffer.\<close>

definition lora_in_packet ::
  "('e, 'd, 'k, 'n, 'w, 'z, 'l, 's) platform \<Rightarrow> uint32_t \<Rightarrow> int \<Rightarrow> bytes \<Rightarrow> int16_t \<Rightarrow> int8_t \<Rightarrow>
   ('k, 'n, 'w, 'z, 'l, 's) node \<Rightarrow> ('k, 'n, 'w, 'z, 'l, 's) node" where
  "lora_in_packet E now len rx_buffer rssi snr nd =
    (if len < 0 then nd
     else if len \<le> int TS_AUTH_TAG_SIZE then nd
     else let cbor_len = nat len - TS_AUTH_TAG_SIZE in
       if ts_auth_verify (p_psa E) (Some rx_buffer) cbor_len (drop cbor_len rx_buffer) (n_auth nd) \<noteq> 0 then nd
       else case cbor_deserialize (p_zcbor E) (Some rx_buffer) cbor_len zero_msg of
         Inl _ \<Rightarrow> nd
       | Inr msg \<Rightarrow> lora_in_message E now \<lparr>in_msg = msg, in_rssi = rssi, in_snr = snr\<rparr> nd)"

definition LORA_RX_BUFFER_SIZE :: uint8_t where "LORA_RX_BUFFER_SIZE = 255"

definition lora_in_iteration ::
  "('e, 'd, 'k, 'n, 'w, 'z, 'l, 's) platform \<Rightarrow> uint32_t \<Rightarrow> ('k, 'n, 'w, 'z, 'l, 's) node \<Rightarrow> ('k, 'n, 'w, 'z, 'l, 's) node" where
  "lora_in_iteration E now nd =
    (case lora_recv (p_lora E) LORA_RX_BUFFER_SIZE (n_radio nd) of ((len, data, rssi, snr), l) \<Rightarrow>
       lora_in_packet E now len data rssi snr (nd\<lparr>n_radio := l\<rparr>))"

text \<open>The prologue of the receive task.\<close>

definition lora_in_start ::
  "('e, 'd, 'k, 'n, 'w, 'z, 'l, 's) platform \<Rightarrow> ('k, 'n, 'w, 'z, 'l, 's) node \<Rightarrow> ('k, 'n, 'w, 'z, 'l, 's) node option" where
  "lora_in_start E nd =
    map_option (\<lambda>nd. nd\<lparr>n_pool := ts_contention_init (p_work E) (n_pool nd), lora_in_running := True\<rparr>)
      (pass_ready_sem nd)"

lemma start_defined:
  "lora_out_start nd = Some nd' \<longleftrightarrow> lora_ready_sem nd \<and> nd' = nd\<lparr>lora_ready_sem := True, lora_out_running := True\<rparr>"
  "lora_in_start E nd = Some nd' \<longleftrightarrow> lora_ready_sem nd \<and> nd' = nd\<lparr>lora_ready_sem := True,
     n_pool := ts_contention_init (p_work E) (n_pool nd), lora_in_running := True\<rparr>"
  by (auto simp: lora_out_start_def lora_in_start_def pass_ready_sem_def Let_def)

section \<open>Authenticity of packets\<close>

lemma verify_buffer:
  "n \<le> length buf \<Longrightarrow> ts_auth_verify P (Some buf) n t st = verify_bytes P st (take n buf) t"
  by (simp add: ts_auth_verify_def ts_auth_sign_def min_def)

lemma deserialize_buffer:
  "cbor_deserialize Z (Some buf) n q = cbor_deserialize Z (Some (take n buf)) n q"
  by (simp add: cbor_deserialize_def)

lemma not_authentic_ignored:
  assumes "len \<le> 8 \<or> ts_auth_verify (p_psa E) (Some buf) (nat len - 8) (drop (nat len - 8) buf) (n_auth nd) \<noteq> 0"
  shows "lora_in_packet E now len buf rssi snr nd = nd"
  using assms by (auto simp: lora_in_packet_def TS_AUTH_TAG_SIZE_def Let_def)

text \<open>A packet has an effect only if it is a message followed by that message's tag.\<close>

lemma effect_needs_authentic:
  assumes psa: "psa (p_psa E) cmac" and len: "int (length buf) = len"
    and eff: "lora_in_packet E now len buf rssi snr nd \<noteq> nd"
  shows "\<exists>d t. d \<noteq> [] \<and> buf = d @ t \<and> ts_auth_sign (p_psa E) (Some d) (length d) (n_auth nd) = Inr t"
proof -
  let ?n = "nat len - 8"
  have "\<not> (len \<le> 8 \<or> ts_auth_verify (p_psa E) (Some buf) ?n (drop ?n buf) (n_auth nd) \<noteq> 0)"
    using eff not_authentic_ignored by blast
  then have l: "8 < len" and v: "ts_auth_verify (p_psa E) (Some buf) ?n (drop ?n buf) (n_auth nd) = 0"
    by simp_all
  have n: "?n \<le> length buf" "length (drop ?n buf) = 8" "take ?n buf \<noteq> []" using l len by auto
  from trans [OF verify_buffer [OF n(1), symmetric] v]
  have "verify_bytes (p_psa E) (n_auth nd) (take ?n buf) (drop ?n buf) = 0" .
  then have "sign_bytes (p_psa E) (n_auth nd) (take ?n buf) = Inr (drop ?n buf)"
    using psa.verify_iff' [OF psa n(2)] by blast
  with n(3) show ?thesis
    by (intro exI [of _ "take ?n buf"] exI [of _ "drop ?n buf"]) simp
qed

text \<open>A packet the transmit task builds, as a receiver with a matching key sees it.\<close>

lemma received_packet:
  assumes z: "zcbor (p_zcbor E) wire room rest depth" and psa: "psa (p_psa F) cmac"
    and pkt: "lora_out_packet E auth m = Inr pkt"
    and wf: "wf_data (msg_data m)" and zz: "p_zcbor F = p_zcbor E"
    and ok: "\<And>d t. ts_auth_sign (p_psa E) (Some d) (length d) auth = Inr t \<Longrightarrow>
      ts_auth_sign (p_psa F) (Some d) (length d) (n_auth nd) = Inr t"
  shows "lora_in_packet F now (int (length pkt)) pkt rssi snr nd =
    lora_in_message F now \<lparr>in_msg = m\<lparr>msg_route := (msg_route m)\<lparr>rh_key_id := ts_auth_get_key_id (p_key_id E)\<rparr>,
        msg_data := received_data (msg_data m)\<rparr>, in_rssi = rssi, in_snr = snr\<rparr> nd"
proof -
  let ?m = "m\<lparr>msg_route := (msg_route m)\<lparr>rh_key_id := ts_auth_get_key_id (p_key_id E)\<rparr>\<rparr>"
  from pkt obtain buf t where
    buf: "cbor_serialize (p_zcbor E) ?m 248 = Inr buf" and
    t: "ts_auth_sign (p_psa E) (Some buf) (length buf) auth = Inr t" and p: "pkt = buf @ t"
    by (auto simp: lora_out_packet_def ZBOR_ENCODE_BUFFER_SIZE_def TS_AUTH_TAG_SIZE_def Let_def
        split: sum.splits)
  have sgn: "sign_bytes (p_psa F) (n_auth nd) buf = Inr t" by (rule ok [OF t])
  have len: "length t = 8" by (rule psa.sign_length' [OF psa sgn])
  have v: "verify_bytes (p_psa F) (n_auth nd) buf t = 0" using psa.verify_iff' [OF psa len] sgn by blast
  have dec: "cbor_deserialize (p_zcbor F) (Some (buf @ t)) (length buf) zero_msg =
      Inr (?m\<lparr>msg_data := received_data (msg_data m)\<rparr>)"
    using zcbor.roundtrip [OF z _ buf, of 0 t] wf zz by simp
  have "0 < length buf" using zcbor.serialize_nonempty [OF z buf] by simp
  moreover have "ts_auth_verify (p_psa F) (Some (buf @ t)) (length buf) t (n_auth nd) = 0"
    using v verify_buffer [of "length buf" "buf @ t" "p_psa F" t "n_auth nd"] by simp
  ultimately show ?thesis
    unfolding p lora_in_packet_def using len dec
    by (simp add: TS_AUTH_TAG_SIZE_def Let_def nat_add_distrib)
qed

text \<open>What the transmit task puts on air for a message: its encoding and the truncated CMAC of it.\<close>

lemma built_packet:
  assumes "zcbor_sized (p_zcbor E) wire room rest depth" "psa (p_psa E) cmac"
    and "denotes_key (p_network_key E) kb" "length (network_key a0) = 16"
    and "ts_auth_init (p_psa E) (p_network_key E) a0 = (0, a)"
    and "\<And>d. fst (psa_mac_compute (p_psa E) (psa_store a) (auth_key_id a) PSA_ALG_CMAC d) = 0"
    and "known_type (msg_data m)" "wf_data (msg_data m)"
  shows "\<exists>bs. lora_out_packet E a m = Inr (bs @ take 8 (cmac kb bs)) \<and> length (bs @ take 8 (cmac kb bs)) \<le> 146"
proof -
  let ?m = "m\<lparr>msg_route := (msg_route m)\<lparr>rh_key_id := ts_auth_get_key_id (p_key_id E)\<rparr>\<rparr>"
  have z: "zcbor (p_zcbor E) wire room rest depth" using assms(1) by (simp add: zcbor_sized_def)
  have "length (wire_all wire (msg_items ?m)) \<le> 138"
    using zcbor_sized.size_message [OF assms(1), of ?m] assms(8) by simp
  with zcbor.serialize_exact [OF z, of ?m 248] assms(7) obtain bs where
    bs: "cbor_serialize (p_zcbor E) ?m 248 = Inr bs" "length bs \<le> 138" by auto
  have "lora_out_packet E a m = Inr (bs @ take 8 (cmac kb bs))"
    using bs(1) sign_loaded [OF assms(2-6), of bs]
    by (simp add: lora_out_packet_def ZBOR_ENCODE_BUFFER_SIZE_def TS_AUTH_TAG_SIZE_def)
  with bs(2) psa.cmac_length [OF assms(2)] show ?thesis by (intro exI [of _ bs]) simp
qed

lemma packet_understood:
  assumes "zcbor_sized (p_zcbor E) wire room rest depth" and "p_zcbor F = p_zcbor E"
    and "psa (p_psa E) cmac" and "psa (p_psa F) cmac"
    and "denotes_key (p_network_key E) kb" and "denotes_key (p_network_key F) kb"
    and "length (network_key a0) = 16" and "ts_auth_init (p_psa E) (p_network_key E) a0 = (0, a)"
    and "length (network_key b0) = 16" and "ts_auth_init (p_psa F) (p_network_key F) b0 = (0, n_auth nd)"
    and "\<And>d. fst (psa_mac_compute (p_psa E) (psa_store a) (auth_key_id a) PSA_ALG_CMAC d) = 0"
    and "\<And>d. fst (psa_mac_compute (p_psa F) (psa_store (n_auth nd)) (auth_key_id (n_auth nd)) PSA_ALG_CMAC d) = 0"
    and "known_type (msg_data m)" and "wf_data (msg_data m)"
  shows "\<exists>pkt. lora_out_packet E a m = Inr pkt \<and> length pkt \<le> 146 \<and>
    lora_in_packet F now (int (length pkt)) pkt rssi snr nd =
      lora_in_message F now
        \<lparr>in_msg = m\<lparr>msg_route := (msg_route m)\<lparr>rh_key_id := ts_auth_get_key_id (p_key_id E)\<rparr>,
                    msg_data := received_data (msg_data m)\<rparr>,
         in_rssi = rssi, in_snr = snr\<rparr> nd"
proof -
  have z: "zcbor (p_zcbor E) wire room rest depth" using assms(1) by (simp add: zcbor_sized_def)
  from built_packet [OF assms(1,3,5,7,8,11,13,14)] obtain bs where
    pkt: "lora_out_packet E a m = Inr (bs @ take 8 (cmac kb bs))" "length (bs @ take 8 (cmac kb bs)) \<le> 146"
    by blast
  have "ts_auth_sign (p_psa F) (Some d) (length d) (n_auth nd) = ts_auth_sign (p_psa E) (Some d) (length d) a" for d
    using sign_loaded [OF assms(3,5,7,8,11)] sign_loaded [OF assms(4,6,9,10,12)] by simp
  with received_packet [OF z assms(4) pkt(1) assms(14,2), of nd now rssi snr] pkt show ?thesis
    by (intro exI [of _ "bs @ take 8 (cmac kb bs)"]) simp
qed

section \<open>The receive path, case by case\<close>

text \<open>A message is fresh for a node when it is from another node, under the current key id, and not
  among the last ones recorded.\<close>

definition fresh_for :: "('e, 'd, 'k, 'n, 'w, 'z, 'l, 's) platform \<Rightarrow> ts_route_header \<Rightarrow>
  ('k, 'n, 'w, 'z, 'l, 's) node \<Rightarrow> bool" where
  "fresh_for E h nd \<longleftrightarrow> rh_key_id h = ts_auth_get_key_id (p_key_id E) \<and>
     rh_src h \<noteq> self_node_id (n_routing nd) \<and> \<not> ts_routing_is_duplicate (n_routing nd) h"

definition noted :: "uint32_t \<Rightarrow> ts_msg_lora_incoming \<Rightarrow> ('k, 'n, 'w, 'z, 'l, 's) node \<Rightarrow>
  ('k, 'n, 'w, 'z, 'l, 's) node" where
  "noted now im nd = nd\<lparr>
     n_routing := ts_routing_mark_seen (msg_route (in_msg im)) (n_routing nd),
     n_table := snd (ts_routing_table_update now (ts_config_get (n_config nd)) (rh_src (msg_route (in_msg im)))
        (in_rssi im) (in_snr im) (rh_ttl (msg_route (in_msg im))) (n_table nd))\<rparr>"

fun is_config_msg :: "ts_msg_data \<Rightarrow> bool" where
  "is_config_msg (Config_Set _) = True"
| "is_config_msg (Config_Ack _) = True"
| "is_config_msg _ = False"

lemma msg_type_config:
  "wf_data d \<Longrightarrow> (msg_type d = 2 \<or> msg_type d = 3) \<longleftrightarrow> is_config_msg d"
  by (cases d) auto

lemma in_message_not_fresh:
  assumes "\<not> fresh_for E (msg_route (in_msg im)) nd"
  shows "\<exists>p. lora_in_message E now im nd = nd\<lparr>n_pool := p\<rparr> \<and>
    (p = n_pool nd \<or> p = snd (ts_contention_cancel (p_work E) (rh_src (msg_route (in_msg im)))
        (rh_msg_id (msg_route (in_msg im))) (n_pool nd)) \<and>
      ts_routing_is_duplicate (n_routing nd) (msg_route (in_msg im)))"
  using assms
  by (auto simp: lora_in_message_def fresh_for_def ts_routing_get_node_id_def Let_def intro: exI [of _ "n_pool nd"])

lemma in_message_config_set:
  assumes "fresh_for E (msg_route (in_msg im)) nd" "msg_data (in_msg im) = Config_Set c"
    and "ts_routing_is_for_us (n_routing nd) (msg_route (in_msg im))"
  shows "lora_in_message E now im nd = apply_config_set E (msg_route (in_msg im)) c (noted now im nd)"
  using assms
  by (simp add: lora_in_message_def fresh_for_def ts_routing_get_node_id_def noted_def Let_def
      ts_routing_is_for_us_def)

lemma in_message_other:
  assumes "fresh_for E (msg_route (in_msg im)) nd" "wf_data (msg_data (in_msg im))"
    and "\<not> (ts_routing_is_for_us (n_routing nd) (msg_route (in_msg im)) \<and>
            (\<exists>c. msg_data (in_msg im) = Config_Set c))"
  shows "lora_in_message E now im nd =
    (let nd = noted now im nd;
         nd = (if ts_routing_is_for_us (n_routing nd) (msg_route (in_msg im))
               then nd\<lparr>n_bus := snd (zbus_chan_pub_in (p_zbus E) im (n_bus nd))\<rparr> else nd)
     in if is_config_msg (msg_data (in_msg im)) then nd
        else forward_message E (in_msg im) (in_rssi im) nd)"
  using assms
  by (cases "msg_data (in_msg im)")
    (auto simp: lora_in_message_def fresh_for_def ts_routing_get_node_id_def noted_def Let_def
      ts_routing_is_for_us_def)

text \<open>The same as one equation: deliver, then forward.\<close>

lemma in_message_fresh:
  assumes "fresh_for E (msg_route (in_msg im)) nd" "wf_data (msg_data (in_msg im))"
    and "\<not> (ts_routing_is_for_us (n_routing nd) (msg_route (in_msg im)) \<and>
            msg_type (msg_data (in_msg im)) = TS_MSG_CONFIG_SET)"
  shows "lora_in_message E now im nd =
    (let nd' = (noted now im nd)\<lparr>n_bus := if ts_routing_is_for_us (n_routing nd) (msg_route (in_msg im))
         then snd (zbus_chan_pub_in (p_zbus E) im (n_bus nd)) else n_bus nd\<rparr>
     in if msg_type (msg_data (in_msg im)) \<in> {TS_MSG_CONFIG_SET, TS_MSG_CONFIG_ACK} then nd'
        else forward_message E (in_msg im) (in_rssi im) nd')"
proof -
  have nc: "\<not> (ts_routing_is_for_us (n_routing nd) (msg_route (in_msg im)) \<and>
      (\<exists>c. msg_data (in_msg im) = Config_Set c))" using assms(3) by auto
  have us: "ts_routing_is_for_us (n_routing (noted now im nd)) h = ts_routing_is_for_us (n_routing nd) h" for h
    by (simp add: noted_def ts_routing_is_for_us_def)
  show ?thesis
    using in_message_other [OF assms(1,2) nc, of now] us msg_type_config [OF assms(2)]
    by (simp add: Let_def) (simp add: noted_def)
qed

section \<open>Forwarding\<close>

lemma ttl_left: "(t :: uint8_t) \<noteq> 0 \<and> 0 < t - 1 \<longleftrightarrow> 2 \<le> t"
  by unat_arith

lemma forward_fields [simp]:
  "n_bus (forward_message E m rssi nd) = n_bus nd"
  "n_table (forward_message E m rssi nd) = n_table nd"
  "n_config (forward_message E m rssi nd) = n_config nd"
  "n_routing (forward_message E m rssi nd) = n_routing nd"
  "n_auth (forward_message E m rssi nd) = n_auth nd"
  "n_radio (forward_message E m rssi nd) = n_radio nd"
  by (simp_all add: forward_message_def split: prod.split)

lemma forward_only_pool: "\<exists>p. forward_message E m rssi nd = nd\<lparr>n_pool := p\<rparr>"
proof (cases "forward_message E m rssi nd = nd")
  case True
  then show ?thesis by (intro exI [of _ "n_pool nd"]) simp
qed (auto simp: forward_message_def split: prod.splits if_splits)

lemma forward_pool:
  "n_pool (forward_message E m rssi nd) =
    (if 2 \<le> rh_ttl (msg_route m)
     then snd (ts_contention_schedule (p_work E) (ts_config_get (n_config nd))
       (m\<lparr>msg_route := (msg_route m)\<lparr>rh_ttl := rh_ttl (msg_route m) - 1\<rparr>\<rparr>) rssi (n_pool nd))
     else n_pool nd)"
  using ttl_left [of "rh_ttl (msg_route m)"]
  by (cases "rh_ttl (msg_route m) = 0") (simp_all add: forward_message_def ts_routing_decrement_ttl_def)

lemma forward_pending:
  assumes "pool_ok (n_pool nd)"
  shows "pending (n_pool (forward_message E m rssi nd)) = pending (n_pool nd) +
    (if 2 \<le> rh_ttl (msg_route m) \<and> size (pending (n_pool nd)) < TS_CONTENTION_POOL_SIZE
     then {#m\<lparr>msg_route := (msg_route m)\<lparr>rh_ttl := rh_ttl (msg_route m) - 1\<rparr>\<rparr>#} else {#})"
  using fwd.sched_bag [OF assms, where K = "p_work E" and cfg = "ts_config_get (n_config nd)" and rssi = rssi]
  by (simp add: forward_pool)

section \<open>Acknowledgements\<close>

lemma ack_key:
  assumes "wf_key a"
  shows "(strncpy zero_key a (TS_MSG_CONFIG_KEY_MAX - 1))[TS_MSG_CONFIG_KEY_MAX - 1 := NUL] =
    cstr a @ replicate (TS_MSG_CONFIG_KEY_MAX - length (cstr a)) NUL"
proof -
  have l: "length (cstr a) < 32" using wf_key_cstr_less [OF assms] by (simp add: TS_MSG_CONFIG_KEY_MAX_def)
  then have "32 - length (cstr a) = Suc (31 - length (cstr a))" by simp
  then have "strncpy zero_key a 31 = cstr a @ replicate (32 - length (cstr a)) NUL"
    using l replicate_append_same [of "31 - length (cstr a)" NUL]
    by (simp add: strncpy_def zero_key_def TS_MSG_CONFIG_KEY_MAX_def min_def)
  then show ?thesis
    using l by (simp add: TS_MSG_CONFIG_KEY_MAX_def list_update_append list_update_same_conv)
qed

end
