(* ===== verification/Lora_Mock.thy ===== *)
theory Lora_Mock
  imports Platform_Reference
begin

text \<open>
  The loopback radio for emulated boards: \<open>src/drivers/lora_mock.c\<close>, over a kernel message
  queue. It implements the driver interface of \<open>Platform\<close>; the locale \<open>lora_driver\<close>, what
  the receive task relies on, is interpreted on it.
\<close>

definition MOCK_LOOPBACK_BUF_SIZE :: nat where "MOCK_LOOPBACK_BUF_SIZE = 256"
definition MOCK_LOOPBACK_QUEUE_DEPTH :: nat where "MOCK_LOOPBACK_QUEUE_DEPTH = 4"

section \<open>State and operations\<close>

record lora_mock_packet =
  pkt_data :: bytes
  pkt_len :: uint8_t

record 'q lora_mock_data =
  mock_config :: lora_modem_config
  configured :: bool
  rx_msgq :: 'q

definition lora_mock_config :: "lora_modem_config \<Rightarrow> 'q lora_mock_data \<Rightarrow> int \<times> 'q lora_mock_data" where
  "lora_mock_config config d = (0, d\<lparr>mock_config := config, configured := True\<rparr>)"

definition lora_mock_send ::
  "('q, lora_mock_packet) k_msgq_api \<Rightarrow> bytes \<Rightarrow> nat \<Rightarrow> 'q lora_mock_data \<Rightarrow> int \<times> 'q lora_mock_data" where
  "lora_mock_send Q data data_len d =
    (if data_len > MOCK_LOOPBACK_BUF_SIZE then (-EMSGSIZE, d)
     else let pkt = \<lparr> pkt_data = take data_len data @ replicate (MOCK_LOOPBACK_BUF_SIZE - data_len) 0,
                      pkt_len = of_nat data_len \<rparr>
          in case k_msgq_put Q pkt (rx_msgq d) of (ret, q) \<Rightarrow> (0, d\<lparr>rx_msgq := q\<rparr>))"

text \<open>
  When the queue hands over no packet although it reports success, the code would read an
  uninitialised one; the contract of the queue excludes that.
\<close>

definition lora_mock_recv ::
  "('q, lora_mock_packet) k_msgq_api \<Rightarrow> uint8_t \<Rightarrow> 'q lora_mock_data \<Rightarrow>
   (int \<times> bytes \<times> int16_t \<times> int8_t) \<times> 'q lora_mock_data" where
  "lora_mock_recv Q sz d =
    (case k_msgq_get Q (rx_msgq d) of (ret, p, q) \<Rightarrow>
     let d = d\<lparr>rx_msgq := q\<rparr> in
     if ret = -EAGAIN \<or> ret = -ENOMSG then ((-EAGAIN, [], 0, 0), d)
     else if ret \<noteq> 0 then ((ret, [], 0, 0), d)
     else case p of
       None \<Rightarrow> ((-EIO, [], 0, 0), d)
     | Some pkt \<Rightarrow>
         (if pkt_len pkt > sz then ((-ENOMEM, [], 0, 0), d)
          else ((int (unat (pkt_len pkt)), take (unat (pkt_len pkt)) (pkt_data pkt), -42, 10), d)))"

definition lora_mock_init :: "('q, lora_mock_packet) k_msgq_api \<Rightarrow> 'q lora_mock_data \<Rightarrow> int \<times> 'q lora_mock_data" where
  "lora_mock_init Q d = (0, d\<lparr>rx_msgq := k_msgq_init Q MOCK_LOOPBACK_QUEUE_DEPTH\<rparr>)"

definition lora_mock_test_cw :: "uint32_t \<Rightarrow> int8_t \<Rightarrow> uint16_t \<Rightarrow> 'q lora_mock_data \<Rightarrow> int \<times> 'q lora_mock_data" where
  "lora_mock_test_cw frequency tx_power duration d = (0, d)"

definition lora_mock_api :: "('q, lora_mock_packet) k_msgq_api \<Rightarrow> 'q lora_mock_data lora_driver_api" where
  "lora_mock_api Q =
    \<lparr> lora_ready = (\<lambda>_. True), lora_config = lora_mock_config, lora_send = lora_mock_send Q,
      lora_recv = lora_mock_recv Q \<rparr>"

section \<open>The mock as a driver\<close>

definition mock_ok :: "('q \<Rightarrow> lora_mock_packet list) \<Rightarrow> 'q lora_mock_data \<Rightarrow> bool" where
  "mock_ok queued d \<longleftrightarrow> (\<forall>p \<in> set (queued (rx_msgq d)). length (pkt_data p) = MOCK_LOOPBACK_BUF_SIZE)"

definition mock_packet :: "bytes \<Rightarrow> lora_mock_packet" where
  "mock_packet data = \<lparr> pkt_data = data @ replicate (MOCK_LOOPBACK_BUF_SIZE - length data) 0,
     pkt_len = of_nat (length data) \<rparr>"

lemma unat_u8_less: "unat (b :: uint8_t) < 256"
  by (rule order.strict_trans2 [OF unsigned_less]) simp

locale mock_queue = k_msgq Q queued depth
  for Q :: "('q, lora_mock_packet) k_msgq_api" and queued :: "'q \<Rightarrow> lora_mock_packet list"
    and depth :: "'q \<Rightarrow> nat"
begin

lemma put_cases:
  obtains (room) q' where "length (queued q) < depth q" "k_msgq_put Q p q = (0, q')"
      "queued q' = queued q @ [p]" "depth q' = depth q"
  | (full) r q' where "depth q \<le> length (queued q)" "k_msgq_put Q p q = (r, q')" "queued q' = queued q"
      "depth q' = depth q"
proof (cases "length (queued q) < depth q")
  case True
  with put_room [OF True] show ?thesis using room by blast
next
  case False
  with put_full [of q p] show ?thesis using full by force
qed

lemma get_cases:
  obtains (empty) r q' where "queued q = []" "k_msgq_get Q q = (r, None, q')" "r = -EAGAIN \<or> r = -ENOMSG"
      "queued q' = []" "depth q' = depth q"
  | (some) p ps q' where "queued q = p # ps" "k_msgq_get Q q = (0, Some p, q')" "queued q' = ps"
      "depth q' = depth q"
proof (cases "queued q")
  case Nil
  with get_empty [OF Nil] show ?thesis using empty by blast
next
  case (Cons p ps)
  with get_some [OF Cons] show ?thesis using some by blast
qed

lemma send_queue:
  assumes "length data \<le> 256"
  shows "\<exists>d'. lora_mock_send Q data (length data) d = (0, d') \<and> depth (rx_msgq d') = depth (rx_msgq d) \<and>
    queued (rx_msgq d') = (if length (queued (rx_msgq d)) < depth (rx_msgq d)
      then queued (rx_msgq d) @ [mock_packet data] else queued (rx_msgq d))"
  using assms
  by (cases rule: put_cases [of "rx_msgq d" "mock_packet data"])
    (auto simp: lora_mock_send_def mock_packet_def MOCK_LOOPBACK_BUF_SIZE_def Let_def)

lemma recv_queue:
  assumes "queued (rx_msgq d) = mock_packet data # ps" "length data \<le> unat sz"
  shows "\<exists>d'. lora_mock_recv Q sz d = ((int (length data), data, -42, 10), d') \<and>
    queued (rx_msgq d') = ps \<and> depth (rx_msgq d') = depth (rx_msgq d)"
proof -
  have "unat sz < 256" by (rule unat_u8_less)
  with assms(2) have "unat (pkt_len (mock_packet data)) = length data"
    by (simp add: mock_packet_def unat_of_nat)
  moreover from this assms(2) have "\<not> sz < pkt_len (mock_packet data)" by (simp add: word_less_nat_alt)
  moreover have "take (length data) (pkt_data (mock_packet data)) = data" by (simp add: mock_packet_def)
  ultimately show ?thesis using assms(1)
    by (cases rule: get_cases [of "rx_msgq d"]) (auto simp: lora_mock_recv_def Let_def)
qed

end

sublocale mock_queue \<subseteq> driver: lora_driver "lora_mock_api Q" "mock_ok queued"
proof
  fix l sz len data rssi snr l'
  assume ok: "mock_ok queued l" and r: "lora_recv (lora_mock_api Q) sz l = ((len, data, rssi, snr), l')"
    and len: "0 \<le> len"
  show "len \<le> int (unat sz) \<and> length data = nat len"
  proof (cases rule: get_cases [of "rx_msgq l"])
    case empty
    with r len show ?thesis by (auto simp: lora_mock_api_def lora_mock_recv_def Let_def)
  next
    case (some p ps q')
    then have "length (pkt_data p) = 256" using ok by (simp add: mock_ok_def MOCK_LOOPBACK_BUF_SIZE_def)
    moreover have "unat (pkt_len p) < 256" by (rule unat_u8_less)
    ultimately show ?thesis using some r len
      by (auto simp: lora_mock_api_def lora_mock_recv_def Let_def word_le_def not_less split: if_splits)
  qed
next
  fix l sz assume "mock_ok queued l"
  then show "mock_ok queued (snd (lora_recv (lora_mock_api Q) sz l))"
    by (cases rule: get_cases [of "rx_msgq l"])
      (auto simp: mock_ok_def lora_mock_api_def lora_mock_recv_def Let_def)
next
  fix l n and data :: bytes assume ok: "mock_ok queued l" and n: "n \<le> length data"
  show "mock_ok queued (snd (lora_send (lora_mock_api Q) data n l))"
  proof (cases "n \<le> 256")
    case True
    with n send_queue [of "take n data" l] obtain d' where
      "lora_mock_send Q (take n data) n l = (0, d')"
      "queued (rx_msgq d') = (if length (queued (rx_msgq l)) < depth (rx_msgq l)
        then queued (rx_msgq l) @ [mock_packet (take n data)] else queued (rx_msgq l))" by auto
    moreover have "lora_mock_send Q data n l = lora_mock_send Q (take n data) n l"
      by (simp add: lora_mock_send_def)
    ultimately show ?thesis using ok n True
      by (auto simp: mock_ok_def lora_mock_api_def mock_packet_def MOCK_LOOPBACK_BUF_SIZE_def)
  next
    case False
    with ok show ?thesis by (simp add: lora_mock_api_def lora_mock_send_def MOCK_LOOPBACK_BUF_SIZE_def)
  qed
next
  fix l c assume "mock_ok queued l"
  then show "mock_ok queued (snd (lora_config (lora_mock_api Q) c l))"
    by (simp add: mock_ok_def lora_mock_api_def lora_mock_config_def)
qed

interpretation ref_mock: mock_queue ref_k_msgq snd fst
  by unfold_locales

section \<open>Properties\<close>

fun send_all :: "('q, lora_mock_packet) k_msgq_api \<Rightarrow> bytes list \<Rightarrow> 'q lora_mock_data \<Rightarrow> 'q lora_mock_data" where
  "send_all Q [] d = d"
| "send_all Q (x # xs) d = send_all Q xs (snd (lora_mock_send Q x (length x) d))"

fun recv_all :: "('q, lora_mock_packet) k_msgq_api \<Rightarrow> nat \<Rightarrow> 'q lora_mock_data \<Rightarrow> (int \<times> bytes) list" where
  "recv_all Q 0 d = []"
| "recv_all Q (Suc n) d =
     (case lora_mock_recv Q 255 d of ((len, data, _, _), d') \<Rightarrow> (len, data) # recv_all Q n d')"

context mock_queue
begin

lemma send_all_queue:
  assumes "\<forall>x \<in> set xs. length x \<le> 255" "length (queued (rx_msgq d)) + length xs \<le> depth (rx_msgq d)"
  shows "queued (rx_msgq (send_all Q xs d)) = queued (rx_msgq d) @ map mock_packet xs"
  using assms
proof (induction xs arbitrary: d)
  case (Cons x xs)
  have "length x \<le> 256" using Cons.prems(1) by simp
  from send_queue [OF this, of d] Cons.prems(2) obtain d' where
    d': "lora_mock_send Q x (length x) d = (0, d')" "depth (rx_msgq d') = depth (rx_msgq d)"
    "queued (rx_msgq d') = queued (rx_msgq d) @ [mock_packet x]" by auto
  with Cons.IH [of d'] Cons.prems show ?case by simp
qed simp

lemma recv_all_queue:
  assumes "\<forall>x \<in> set xs. length x \<le> 255" "queued (rx_msgq d) = map mock_packet xs"
  shows "recv_all Q (length xs) d = map (\<lambda>x. (int (length x), x)) xs"
  using assms
proof (induction xs arbitrary: d)
  case (Cons x xs)
  have "length x \<le> unat (255 :: uint8_t)" using Cons.prems(1) by simp
  from recv_queue [OF _ this, of d "map mock_packet xs"] Cons.prems(2) obtain d' where
    "lora_mock_recv Q 255 d = ((int (length x), x, -42, 10), d')"
    "queued (rx_msgq d') = map mock_packet xs" by auto
  with Cons show ?case by simp
qed simp

end

text \<open>(C33) The loopback is faithful up to its depth: up to four packets of at most 255 bytes that are
  sent after initialisation are received in the same order, byte for byte, with their
  lengths.\<close>

theorem mock_loopback_in_order:
  assumes "k_msgq Q queued depth" "\<forall>x \<in> set xs. length x \<le> 255" "length xs \<le> MOCK_LOOPBACK_QUEUE_DEPTH"
  shows "recv_all Q (length xs) (send_all Q xs (snd (lora_mock_init Q d))) =
    map (\<lambda>x. (int (length x), x)) xs"
proof -
  have M: "mock_queue Q queued depth" using assms(1) by (simp add: mock_queue_def)
  let ?d = "snd (lora_mock_init Q d)"
  have "queued (rx_msgq ?d) = []" "depth (rx_msgq ?d) = 4"
    using k_msgq.init_empty [OF assms(1)] by (simp_all add: lora_mock_init_def MOCK_LOOPBACK_QUEUE_DEPTH_def)
  with mock_queue.send_all_queue [OF M assms(2), of ?d] assms(3)
  have "queued (rx_msgq (send_all Q xs ?d)) = map mock_packet xs"
    by (simp add: MOCK_LOOPBACK_QUEUE_DEPTH_def)
  with mock_queue.recv_all_queue [OF M assms(2)] show ?thesis by simp
qed

definition blank_mock :: "(nat \<times> lora_mock_packet list) lora_mock_data" where
  "blank_mock = \<lparr> mock_config = \<lparr>mc_frequency = 0, mc_bandwidth = 0, mc_datarate = 0, mc_coding_rate = 0,
     mc_iq_inverted = False, mc_public_network = False, mc_tx_power = 0, mc_tx = False\<rparr>,
     configured = False, rx_msgq = (0, []) \<rparr>"

theorem mock_loopback_in_order_witness:
  "recv_all ref_k_msgq 2 (send_all ref_k_msgq [[1, 2], [3]] (snd (lora_mock_init ref_k_msgq blank_mock))) =
     [(2, [1, 2]), (1, [3])]"
  using mock_loopback_in_order [OF ref_k_msgq.k_msgq_axioms, of "[[1, 2], [3]]" blank_mock]
  by (simp add: MOCK_LOOPBACK_QUEUE_DEPTH_def eval_nat_numeral)

text \<open>The length field has eight bits but the driver accepts 256 bytes: such a packet is sent
  without an error and received with length 0.\<close>

lemma mock_drops_256_byte_packet:
  assumes "k_msgq Q queued depth" "length x = MOCK_LOOPBACK_BUF_SIZE"
  shows "\<exists>d1. lora_mock_send Q x (length x) (snd (lora_mock_init Q d)) = (0, d1) \<and>
    fst (lora_mock_recv Q 255 d1) = (0, [], -42, 10)"
proof -
  have M: "mock_queue Q queued depth" using assms(1) by (simp add: mock_queue_def)
  let ?d = "snd (lora_mock_init Q d)"
  have q: "queued (rx_msgq ?d) = []" "depth (rx_msgq ?d) = 4"
    using k_msgq.init_empty [OF assms(1)] by (simp_all add: lora_mock_init_def MOCK_LOOPBACK_QUEUE_DEPTH_def)
  from mock_queue.send_queue [OF M, of x ?d] q assms(2) obtain d1 where
    d1: "lora_mock_send Q x (length x) ?d = (0, d1)" "queued (rx_msgq d1) = [mock_packet x]"
    by (auto simp: MOCK_LOOPBACK_BUF_SIZE_def)
  have "pkt_len (mock_packet x) = 0" using assms(2) by (simp add: mock_packet_def MOCK_LOOPBACK_BUF_SIZE_def)
  with k_msgq.get_some [OF assms(1) d1(2)] have "fst (lora_mock_recv Q 255 d1) = (0, [], -42, 10)"
    by (auto simp: lora_mock_recv_def Let_def)
  with d1(1) show ?thesis by blast
qed

end
