(* ===== verification/Node.thy ===== *)
theory Node
  imports Lora Lora_Mock
begin

text \<open>
  The whole node: \<open>src/main.c\<close>, and the node as a state machine whose steps are the
  iterations of the radio tasks, the heartbeat of the main thread and the items of the
  system work queue (sensor reading, table ageing, delayed forwards), and the calls \<open>main\<close>
  makes before its loop. The radio tasks have priority 3 and \<open>main\<close> has priority 5
  (\<open>prj.conf\<close>), a smaller number being more urgent: they run as soon as they can, before and
  between these calls. Each step is atomic.
\<close>

section \<open>main\<close>

text \<open>The calls of \<open>main\<close> before its loop, one at a time.\<close>

definition main_step ::
  "('e, 'd, 'k, 'n, 'w, 'z, 'l, 's) platform \<Rightarrow> ('k, 'n, 'w, 'z, 'l, 's) node \<Rightarrow> ('k, 'n, 'w, 'z, 'l, 's) node" where
  "main_step E nd =
    (let cfg = ts_config_get (n_config nd) in
     case main_pc nd of
       Main_Auth \<Rightarrow>
         (case ts_auth_init (p_psa E) (p_network_key E) (n_auth nd) of (auth_ret, a) \<Rightarrow>
            nd\<lparr>n_auth := a, main_pc := (if auth_ret \<noteq> 0 then Main_Returned auth_ret else Main_Config)\<rparr>)
     | Main_Config \<Rightarrow>
         (case ts_config_init (p_settings E) (n_config nd) of (cfg_ret, c) \<Rightarrow>
            nd\<lparr>n_config := c, main_pc := (if cfg_ret \<noteq> 0 then Main_Returned cfg_ret else Main_Routing)\<rparr>)
     | Main_Routing \<Rightarrow> nd\<lparr>n_routing := ts_routing_init (node_id cfg), main_pc := Main_Table\<rparr>
     | Main_Table \<Rightarrow> nd\<lparr>n_table := ts_routing_table_init, main_pc := Main_Sensor_Timer\<rparr>
     | Main_Sensor_Timer \<Rightarrow>
         nd\<lparr>sensor_periodic_timer := Some (1, sensor_interval_s cfg), main_pc := Main_Age_Timer\<rparr>
     | Main_Age_Timer \<Rightarrow>
         nd\<lparr>routing_table_age_timer :=
              Some (routing_table_age_interval_s cfg, routing_table_age_interval_s cfg), main_pc := Main_Loop\<rparr>
     | Main_Loop \<Rightarrow> nd
     | Main_Returned _ \<Rightarrow> nd)"

abbreviation main_running :: "('k, 'n, 'w, 'z, 'l, 's) node \<Rightarrow> bool" where
  "main_running nd \<equiv> main_pc nd = Main_Loop"

text \<open>One turn of the loop at the end of \<open>main\<close>, after the sleep.\<close>

definition heartbeat ::
  "('e, 'd, 'k, 'n, 'w, 'z, 'l, 's) platform \<Rightarrow> uint32_t \<Rightarrow> ('k, 'n, 'w, 'z, 'l, 's) node \<Rightarrow> ('k, 'n, 'w, 'z, 'l, 's) node" where
  "heartbeat E now nd =
    (case ts_routing_prepare_header (ts_config_get (n_config nd)) zero_header TS_ROUTING_BROADCAST_ADDR
            (n_routing nd) of (hdr, rs) \<Rightarrow>
     let out_msg = \<lparr>msg_route = hdr,
           msg_data = Node_Status \<lparr>ns_timestamp = now, ns_uptime = now, ns_status = STATUS_OK\<rparr>\<rparr>
     in nd\<lparr>n_routing := rs, n_bus := snd (zbus_chan_pub_out (p_zbus E) out_msg (n_bus nd))\<rparr>)"

definition routing_table_age_handler ::
  "uint32_t \<Rightarrow> ('k, 'n, 'w, 'z, 'l, 's) node \<Rightarrow> ('k, 'n, 'w, 'z, 'l, 's) node" where
  "routing_table_age_handler now nd =
    nd\<lparr>n_table := snd (ts_routing_table_age_seconds now
          (routing_table_stale_timeout_s (ts_config_get (n_config nd))) (n_table nd))\<rparr>"

definition sensor_take_reading_wrapper ::
  "('e, 'd, 'k, 'n, 'w, 'z, 'l, 's) platform \<Rightarrow> uint32_t \<Rightarrow> ('k, 'n, 'w, 'z, 'l, 's) node \<Rightarrow> ('k, 'n, 'w, 'z, 'l, 's) node" where
  "sensor_take_reading_wrapper E now nd =
    (case periodic_work_handler (p_sensor E) (zbus_chan_pub_out (p_zbus E)) now
            (ts_config_get (n_config nd)) (n_routing nd, n_sensor nd, n_bus nd) of
       (rs, s, z) \<Rightarrow> nd\<lparr>n_routing := rs, n_sensor := s, n_bus := z\<rparr>)"

definition forward_timer ::
  "('e, 'd, 'k, 'n, 'w, 'z, 'l, 's) platform \<Rightarrow> nat \<Rightarrow> ('k, 'n, 'w, 'z, 'l, 's) node \<Rightarrow> ('k, 'n, 'w, 'z, 'l, 's) node" where
  "forward_timer E i nd =
    (case ts_contention_work_handler (zbus_chan_pub_out (p_zbus E)) i (n_pool nd, n_bus nd) of
       (p, z) \<Rightarrow> nd\<lparr>n_pool := p, n_bus := z\<rparr>)"

text \<open>The expiry functions of the two timers submit the work items; a started timer expires again
  and again.\<close>

definition sensor_periodic_timer_handler ::
  "('k, 'n, 'w, 'z, 'l, 's) node \<Rightarrow> ('k, 'n, 'w, 'z, 'l, 's) node" where
  "sensor_periodic_timer_handler nd = nd\<lparr>sensor_take_reading := True\<rparr>"

definition routing_table_age_timer_handler ::
  "('k, 'n, 'w, 'z, 'l, 's) node \<Rightarrow> ('k, 'n, 'w, 'z, 'l, 's) node" where
  "routing_table_age_timer_handler nd = nd\<lparr>routing_table_age_work := True\<rparr>"

text \<open>The static initial values of all modules: the configuration holds the defaults, everything
  else is zero, and no thread has run.\<close>

definition power_up :: "('k, 'n, 'w, 'z, 'l, 's) node \<Rightarrow> bool" where
  "power_up nd \<longleftrightarrow> live_config (n_config nd) = config_image TS_CONFIG_DEFAULTS \<and>
     n_routing nd = ts_routing_init 0 \<and> n_table nd = ts_routing_table_init \<and>
     length (pool (n_pool nd)) = TS_CONTENTION_POOL_SIZE \<and> (\<forall>s \<in> set (pool (n_pool nd)). \<not> ct_occupied s) \<and>
     \<not> lora_ready_sem nd \<and> sensor_periodic_timer nd = None \<and> routing_table_age_timer nd = None \<and>
     \<not> sensor_take_reading nd \<and> \<not> routing_table_age_work nd \<and>
     \<not> lora_out_running nd \<and> \<not> lora_in_running nd \<and> main_pc nd = Main_Auth"

text \<open>\<open>SYS_INIT\<close> configures the radio before any thread of the program runs; the result is only
  logged.\<close>

definition after_sys_init ::
  "('e, 'd, 'k, 'n, 'w, 'z, 'l, 's) platform \<Rightarrow> ('k, 'n, 'w, 'z, 'l, 's) node \<Rightarrow> ('k, 'n, 'w, 'z, 'l, 's) node" where
  "after_sys_init E nd = snd (lora_init E nd)"

text \<open>A start-up in which no packet arrives before \<open>main\<close> has made its calls.\<close>

definition boot ::
  "('e, 'd, 'k, 'n, 'w, 'z, 'l, 's) platform \<Rightarrow> ('k, 'n, 'w, 'z, 'l, 's) node \<Rightarrow> ('k, 'n, 'w, 'z, 'l, 's) node" where
  "boot E nd = (main_step E ^^ 6) (after_sys_init E nd)"

section \<open>Steps and reachable states\<close>

text \<open>The work queue takes a submitted item off the queue before it runs it.\<close>

inductive task_step ::
  "('e, 'd, 'k, 'n, 'w, 'z, 'l, 's) platform \<Rightarrow> ('k, 'n, 'w, 'z, 'l, 's) node \<Rightarrow> ('k, 'n, 'w, 'z, 'l, 's) node \<Rightarrow> bool"
  for E where
  out_start: "\<not> lora_out_running nd \<Longrightarrow> lora_out_start nd = Some nd' \<Longrightarrow> task_step E nd nd'"
| in_start: "\<not> lora_in_running nd \<Longrightarrow> lora_in_start E nd = Some nd' \<Longrightarrow> task_step E nd nd'"
| rx: "lora_in_running nd \<Longrightarrow> task_step E nd (lora_in_iteration E now nd)"
| tx: "lora_out_running nd \<Longrightarrow> task_step E nd (lora_out_iteration E nd)"
| beat: "main_running nd \<Longrightarrow> task_step E nd (heartbeat E now nd)"
| sensor_timer: "sensor_periodic_timer nd \<noteq> None \<Longrightarrow> task_step E nd (sensor_periodic_timer_handler nd)"
| sensor: "sensor_take_reading nd \<Longrightarrow>
    task_step E nd (sensor_take_reading_wrapper E now (nd\<lparr>sensor_take_reading := False\<rparr>))"
| age_timer: "routing_table_age_timer nd \<noteq> None \<Longrightarrow> task_step E nd (routing_table_age_timer_handler nd)"
| age: "routing_table_age_work nd \<Longrightarrow>
    task_step E nd (routing_table_age_handler now (nd\<lparr>routing_table_age_work := False\<rparr>))"
| fire: "lora_in_running nd \<Longrightarrow> i < TS_CONTENTION_POOL_SIZE \<Longrightarrow> task_step E nd (forward_timer E i nd)"

inductive node_step ::
  "('e, 'd, 'k, 'n, 'w, 'z, 'l, 's) platform \<Rightarrow> ('k, 'n, 'w, 'z, 'l, 's) node \<Rightarrow> ('k, 'n, 'w, 'z, 'l, 's) node \<Rightarrow> bool"
  for E where
  task: "task_step E nd nd' \<Longrightarrow> node_step E nd nd'"
| main: "node_step E nd (main_step E nd)"

definition seen_shape :: "routing_state \<Rightarrow> bool" where
  "seen_shape rs \<longleftrightarrow> length (seen_cache rs) = TS_ROUTING_SEEN_CACHE_SIZE \<and>
     unat (seen_write_idx rs) < TS_ROUTING_SEEN_CACHE_SIZE"

definition node_ok :: "('k, 'n, 'w, 'z, 'l, 's) node \<Rightarrow> bool" where
  "node_ok nd \<longleftrightarrow> config_ok (n_config nd) \<and> table_ok (n_table nd) \<and> pool_ok (n_pool nd) \<and>
     seen_shape (n_routing nd)"

lemma seen_shape_mark [inv_intros]:
  assumes "seen_shape rs"
  shows "seen_shape (ts_routing_mark_seen h rs)"
proof -
  have "unat (seen_write_idx rs) < 32" using assms by (simp add: seen_shape_def TS_ROUTING_SEEN_CACHE_SIZE_def)
  from next_write_idx [OF this] assms show ?thesis
    by (simp add: seen_shape_def ts_routing_mark_seen_def) (simp add: TS_ROUTING_SEEN_CACHE_SIZE_def)
qed

lemma seen_shape_prepare [inv_intros]:
  "seen_shape rs \<Longrightarrow> seen_shape (snd (ts_routing_prepare_header cfg h d rs))"
  by (simp add: ts_routing_prepare_header_def seen_shape_def)

lemma prepare_self: "self_node_id (snd (ts_routing_prepare_header cfg h d rs)) = self_node_id rs"
  by (simp add: ts_routing_prepare_header_def)

text \<open>What stays the same in every step but those of \<open>main\<close>: the key material, the node's address,
  the timers and where \<open>main\<close> is.\<close>

definition same_identity :: "('k, 'n, 'w, 'z, 'l, 's) node \<Rightarrow> ('k, 'n, 'w, 'z, 'l, 's) node \<Rightarrow> bool" where
  "same_identity nd nd' \<longleftrightarrow> n_auth nd' = n_auth nd \<and> self_node_id (n_routing nd') = self_node_id (n_routing nd) \<and>
     sensor_periodic_timer nd' = sensor_periodic_timer nd \<and>
     routing_table_age_timer nd' = routing_table_age_timer nd \<and> main_pc nd' = main_pc nd"

lemma noted_ok [inv_intros]: "node_ok nd \<Longrightarrow> node_ok (noted now im nd) \<and> same_identity nd (noted now im nd)"
  by (simp add: node_ok_def noted_def same_identity_def update_ok seen_shape_mark)

lemma apply_config_set_ok [inv_intros]:
  "node_ok nd \<Longrightarrow> node_ok (apply_config_set E h c nd) \<and> same_identity nd (apply_config_set E h c nd)"
  using ts_config_set_ok [of "n_config nd" "p_settings E" "cstr (cs_key c)" "cs_value c"]
  by (auto simp: node_ok_def same_identity_def apply_config_set_def Let_def ts_routing_prepare_header_def
      seen_shape_def split: prod.splits)

lemma forward_ok [inv_intros]:
  "node_ok nd \<Longrightarrow> node_ok (forward_message E m rssi nd) \<and> same_identity nd (forward_message E m rssi nd)"
  by (auto simp: node_ok_def same_identity_def forward_message_def fwd.sched_ok split: prod.splits)

lemma in_message_shape:
  obtains (ignored) "lora_in_message E now im nd = nd"
  | (duplicate) "lora_in_message E now im nd = nd\<lparr>n_pool := snd (ts_contention_cancel (p_work E)
      (rh_src (msg_route (in_msg im))) (rh_msg_id (msg_route (in_msg im))) (n_pool nd))\<rparr>"
  | (config) c where "lora_in_message E now im nd = apply_config_set E (msg_route (in_msg im)) c (noted now im nd)"
  | (deliver) z where "lora_in_message E now im nd = (noted now im nd)\<lparr>n_bus := z\<rparr>"
  | (forward) z where
      "lora_in_message E now im nd = forward_message E (in_msg im) (in_rssi im) ((noted now im nd)\<lparr>n_bus := z\<rparr>)"
proof (cases "fresh_for E (msg_route (in_msg im)) nd")
  case False
  from in_message_not_fresh [OF False, of now] obtain p where
    p: "lora_in_message E now im nd = nd\<lparr>n_pool := p\<rparr>" "p = n_pool nd \<or> p = snd (ts_contention_cancel (p_work E)
      (rh_src (msg_route (in_msg im))) (rh_msg_id (msg_route (in_msg im))) (n_pool nd))" by blast
  show ?thesis
  proof (cases "p = n_pool nd")
    case True
    with p(1) show ?thesis by (intro ignored) simp
  next
    case False
    with p show ?thesis by (intro duplicate) simp
  qed
next
  case True
  let ?us = "ts_routing_is_for_us (n_routing nd) (msg_route (in_msg im))"
  let ?z = "if ?us then snd (zbus_chan_pub_in (p_zbus E) im (n_bus nd)) else n_bus nd"
  let ?d = "msg_data (in_msg im)"
  let ?rest = "if msg_type ?d = 2 \<or> msg_type ?d = 3 then (noted now im nd)\<lparr>n_bus := ?z\<rparr>
    else forward_message E (in_msg im) (in_rssi im) ((noted now im nd)\<lparr>n_bus := ?z\<rparr>)"
  have "lora_in_message E now im nd = (case (?us, ?d) of
      (True, Config_Set c) \<Rightarrow> apply_config_set E (msg_route (in_msg im)) c (noted now im nd)
    | _ \<Rightarrow> ?rest)"
    using True
    by (auto simp: lora_in_message_def fresh_for_def ts_routing_get_node_id_def noted_def Let_def
        ts_routing_is_for_us_def split: ts_msg_data.split)
  then show ?thesis
    by (cases ?us; cases ?d; cases "msg_type ?d = 2 \<or> msg_type ?d = 3")
      (auto intro: config deliver forward)
qed

lemma node_ok_bus [simp]: "node_ok (nd\<lparr>n_bus := z\<rparr>) = node_ok nd" "same_identity nd (nd'\<lparr>n_bus := z\<rparr>) = same_identity nd nd'"
  "node_ok (nd\<lparr>n_radio := l\<rparr>) = node_ok nd" "same_identity nd (nd'\<lparr>n_radio := l\<rparr>) = same_identity nd nd'"
  by (simp_all add: node_ok_def same_identity_def)

lemma same_identity_refl [simp]: "same_identity nd nd"
  by (simp add: same_identity_def)

lemma same_identity_trans: "same_identity a b \<Longrightarrow> same_identity b c \<Longrightarrow> same_identity a c"
  by (simp add: same_identity_def)

lemma in_message_ok [inv_intros]:
  assumes "node_ok nd"
  shows "node_ok (lora_in_message E now im nd) \<and> same_identity nd (lora_in_message E now im nd)"
proof (cases rule: in_message_shape [of E now im nd])
  case ignored
  with assms show ?thesis by simp
next
  case duplicate
  with assms fwd.cancel_ok [of "n_pool nd" "p_work E" "msg_key (in_msg im)"] show ?thesis
    by (simp add: node_ok_def same_identity_def msg_key_def)
next
  case (config c)
  with apply_config_set_ok noted_ok [OF assms] same_identity_trans show ?thesis by metis
next
  case (deliver z)
  with noted_ok [OF assms] show ?thesis by simp
next
  case (forward z)
  have n: "node_ok ((noted now im nd)\<lparr>n_bus := z\<rparr>) \<and> same_identity nd ((noted now im nd)\<lparr>n_bus := z\<rparr>)"
    using noted_ok [OF assms] by simp
  with forward forward_ok same_identity_trans show ?thesis by metis
qed

lemma in_packet_ok [inv_intros]:
  assumes "node_ok nd"
  shows "node_ok (lora_in_packet E now len buf rssi snr nd) \<and>
    same_identity nd (lora_in_packet E now len buf rssi snr nd)"
  using assms by (simp add: lora_in_packet_def Let_def in_message_ok [OF assms] split: sum.split)

lemma task_step_ok:
  assumes "task_step E nd nd'" "node_ok nd"
  shows "node_ok nd' \<and> same_identity nd nd'"
  using assms
proof (induction rule: task_step.induct)
  case (out_start nd nd')
  then show ?case by (auto simp: start_defined node_ok_def same_identity_def)
next
  case (in_start nd nd')
  then show ?case
    using init_pool_ok(1) [of "n_pool nd" "p_work E"]
    by (auto simp: start_defined node_ok_def same_identity_def pool_ok_def)
next
  case (rx nd now)
  have "node_ok (lora_in_packet E now len buf rssi snr (nd\<lparr>n_radio := l\<rparr>)) \<and>
      same_identity nd (lora_in_packet E now len buf rssi snr (nd\<lparr>n_radio := l\<rparr>))" for len buf rssi snr l
  proof -
    have n: "node_ok (nd\<lparr>n_radio := l\<rparr>)" "same_identity nd (nd\<lparr>n_radio := l\<rparr>)" using rx by simp_all
    show ?thesis
      using in_packet_ok [OF n(1), of E now len buf rssi snr] same_identity_trans [OF n(2)] by simp
  qed
  then show ?case by (simp add: lora_in_iteration_def split: prod.split)
next
  case (tx nd)
  then show ?case by (simp add: lora_out_iteration_def Let_def split: prod.split sum.split)
next
  case (beat nd now)
  then show ?case
    by (simp add: heartbeat_def ts_routing_prepare_header_def node_ok_def same_identity_def seen_shape_def)
next
  case (sensor_timer nd)
  then show ?case by (simp add: sensor_periodic_timer_handler_def node_ok_def same_identity_def)
next
  case (age_timer nd)
  then show ?case by (simp add: routing_table_age_timer_handler_def node_ok_def same_identity_def)
next
  case (sensor nd now)
  then show ?case
    by (simp add: sensor_take_reading_wrapper_def periodic_work_handler_def ts_routing_prepare_header_def
        node_ok_def same_identity_def seen_shape_def Let_def split: prod.split)
next
  case (age nd now)
  then show ?case by (simp add: routing_table_age_handler_def node_ok_def same_identity_def age_ok)
next
  case (fire nd i)
  then show ?case
    using fwd.claim_ok [of "n_pool nd" i]
    by (auto simp: forward_timer_def ts_contention_work_handler_def node_ok_def same_identity_def
        split: prod.splits option.splits)
qed

text \<open>The configuration changes only by \<open>ts_config_set\<close>, outside of \<open>main\<close>.\<close>

definition config_moves :: "'n settings_api \<Rightarrow> 'n config_state \<Rightarrow> 'n config_state \<Rightarrow> bool" where
  "config_moves S c c' \<longleftrightarrow> c' = c \<or> (\<exists>p v. c' = snd (ts_config_set S p v c))"

lemma config_moves_refl [simp]: "config_moves S c c"
  by (simp add: config_moves_def)

lemma in_message_config: "config_moves (p_settings E) (n_config nd) (n_config (lora_in_message E now im nd))"
proof (cases rule: in_message_shape [of E now im nd])
  case (config c)
  then have "n_config (lora_in_message E now im nd) =
      snd (ts_config_set (p_settings E) (cstr (cs_key c)) (cs_value c) (n_config nd))"
    by (simp add: apply_config_set_def noted_def Let_def split: prod.split)
  then show ?thesis unfolding config_moves_def by blast
qed (simp_all add: noted_def)

lemma task_step_config: "task_step E nd nd' \<Longrightarrow> config_moves (p_settings E) (n_config nd) (n_config nd')"
proof (induction rule: task_step.induct)
  case (rx nd now)
  have "config_moves (p_settings E) (n_config nd) (n_config (lora_in_packet E now len buf rssi snr (nd\<lparr>n_radio := l\<rparr>)))"
    for len buf rssi snr l
    using in_message_config [of E "nd\<lparr>n_radio := l\<rparr>"] by (simp add: lora_in_packet_def Let_def split: sum.split)
  then show ?case by (simp add: lora_in_iteration_def split: prod.split)
qed (auto simp: start_defined lora_out_iteration_def heartbeat_def sensor_periodic_timer_handler_def
    sensor_take_reading_wrapper_def routing_table_age_timer_handler_def routing_table_age_handler_def
    forward_timer_def Let_def split: prod.split sum.split)

text \<open>How far \<open>main\<close> has come: until it calls \<open>ts_routing_init\<close> the node has address 0, afterwards an
  address from the configuration; the timers run from when \<open>main\<close> starts them, with intervals
  from the configuration.\<close>

definition started :: "('k, 'n, 'w, 'z, 'l, 's) node \<Rightarrow> bool" where
  "started nd \<longleftrightarrow>
    (if main_pc nd \<in> {Main_Table, Main_Sensor_Timer, Main_Age_Timer, Main_Loop}
     then \<exists>c. config_in_range c \<and> self_node_id (n_routing nd) = node_id c
     else self_node_id (n_routing nd) = 0) \<and>
    (if main_pc nd \<in> {Main_Age_Timer, Main_Loop}
     then \<exists>c. config_in_range c \<and> sensor_periodic_timer nd = Some (1, sensor_interval_s c)
     else sensor_periodic_timer nd = None) \<and>
    (if main_pc nd = Main_Loop
     then \<exists>c. config_in_range c \<and> routing_table_age_timer nd =
        Some (routing_table_age_interval_s c, routing_table_age_interval_s c)
     else routing_table_age_timer nd = None)"

lemma started_same: "same_identity nd nd' \<Longrightarrow> started nd \<Longrightarrow> started nd'"
  by (simp add: started_def same_identity_def)

lemma main_step_ok:
  assumes "settings (p_settings E) persisted" "stored_ok (persisted (nvs (n_config nd)))" "node_ok nd" "started nd"
  shows "node_ok (main_step E nd) \<and> started (main_step E nd) \<and>
    stored_ok (persisted (nvs (n_config (main_step E nd))))"
proof -
  note init = settings.init_in_range [OF assms(1,2)] settings.init_persisted [OF assms(1), of "n_config nd"]
  have r: "config_in_range (ts_config_get (n_config nd))" using assms(3) by (simp add: node_ok_def config_ok_def)
  have s: "seen_shape (ts_routing_init i)" for i
    by (simp add: seen_shape_def ts_routing_init_def TS_ROUTING_SEEN_CACHE_SIZE_def)
  have i: "self_node_id (ts_routing_init i) = i" for i by (simp add: ts_routing_init_def)
  show ?thesis
    using assms(2-4) init r s i table_ok_init
    by (cases "main_pc nd")
      (auto simp: main_step_def node_ok_def started_def Let_def split: prod.split)
qed

lemma node_step_inv:
  assumes "settings_atomic (p_settings E) persisted" "node_step E nd nd'"
    and "node_ok nd \<and> started nd \<and> stored_ok (persisted (nvs (n_config nd)))"
  shows "node_ok nd' \<and> started nd' \<and> stored_ok (persisted (nvs (n_config nd')))"
  using assms(2)
proof cases
  case task
  have c: "config_ok (n_config nd)" using assms(3) by (simp add: node_ok_def)
  from task_step_config [OF task] have "stored_ok (persisted (nvs (n_config nd')))"
    using settings_atomic.set_stored_ok [OF assms(1) _ c] assms(3) by (auto simp: config_moves_def)
  with task_step_ok [OF task] started_same [of nd nd'] assms(3) show ?thesis by blast
next
  case main
  with main_step_ok [of E persisted nd] assms(1,3) show ?thesis by (simp add: settings_atomic_def)
qed

lemma power_up_inv:
  assumes "power_up nd0" "stored_ok (persisted (nvs (n_config nd0)))"
  shows "node_ok (after_sys_init E nd0) \<and> started (after_sys_init E nd0) \<and>
    stored_ok (persisted (nvs (n_config (after_sys_init E nd0))))"
proof -
  let ?l = "after_sys_init E nd0"
  have "n_config ?l = n_config nd0" "n_pool ?l = n_pool nd0" "n_routing ?l = n_routing nd0" "n_table ?l = n_table nd0"
    "sensor_periodic_timer ?l = None" "routing_table_age_timer ?l = None" "main_pc ?l = Main_Auth"
    using assms(1) by (simp_all add: after_sys_init_def lora_init_def power_up_def Let_def split: prod.split)
  with assms table_ok_init show ?thesis
    by (simp add: node_ok_def started_def power_up_def config_ok_def ts_config_get_def defaults_in_range pool_ok_def
        free_slot_ok)
      (simp add: seen_shape_def ts_routing_init_def TS_ROUTING_SEEN_CACHE_SIZE_def)
qed

lemma node_run_inv:
  assumes "settings_atomic (p_settings E) persisted" "power_up nd0" "stored_ok (persisted (nvs (n_config nd0)))"
    and "(node_step E)\<^sup>*\<^sup>* (after_sys_init E nd0) nd"
  shows "node_ok nd \<and> started nd"
proof -
  from assms(4) have "node_ok nd \<and> started nd \<and> stored_ok (persisted (nvs (n_config nd)))"
  proof (induction rule: rtranclp_induct)
    case base
    from power_up_inv [where persisted = persisted, OF assms(2,3)] show ?case .
  next
    case (step y z)
    from node_step_inv [OF assms(1) step.hyps(2) step.IH] show ?case .
  qed
  then show ?thesis by simp
qed

text \<open>In the loop the identity of the node stays as it is.\<close>

lemma running_step: "node_step E nd nd' \<Longrightarrow> main_running nd \<Longrightarrow> node_ok nd \<Longrightarrow> node_ok nd' \<and> same_identity nd nd'"
  by (erule node_step.cases) (simp_all add: task_step_ok main_step_def Let_def)

lemma running_run:
  assumes "(node_step E)\<^sup>*\<^sup>* nd nd'" "main_running nd" "node_ok nd"
  shows "same_identity nd nd'"
proof -
  from assms(1) have "node_ok nd' \<and> same_identity nd nd'"
  proof (induction rule: rtranclp_induct)
    case (step y z)
    with running_step [OF step.hyps(2)] assms(2) same_identity_trans [of nd y z] show ?case
      by (simp add: same_identity_def)
  qed (simp add: assms(3))
  then show ?thesis ..
qed

section \<open>Failed start-up\<close>

text \<open>Without the semaphore no radio task starts, and without the radio tasks nothing touches the
  radio.\<close>

definition radio_off :: "('k, 'n, 'w, 'z, 'l, 's) node \<Rightarrow> bool" where
  "radio_off nd \<longleftrightarrow> \<not> lora_ready_sem nd \<and> \<not> lora_out_running nd \<and> \<not> lora_in_running nd"

inductive_cases task_stepE: "task_step E nd nd'"

lemmas worker_defs = heartbeat_def sensor_periodic_timer_handler_def sensor_take_reading_wrapper_def
  routing_table_age_timer_handler_def routing_table_age_handler_def

lemma main_step_fields [simp]:
  "n_radio (main_step E nd) = n_radio nd" "lora_ready_sem (main_step E nd) = lora_ready_sem nd"
  "lora_out_running (main_step E nd) = lora_out_running nd" "lora_in_running (main_step E nd) = lora_in_running nd"
  "n_pool (main_step E nd) = n_pool nd" "n_bus (main_step E nd) = n_bus nd"
  by (cases "main_pc nd"; simp add: main_step_def Let_def split: prod.split)+

lemma radio_off_step:
  assumes "node_step E nd nd'" "radio_off nd"
  shows "radio_off nd' \<and> n_radio nd' = n_radio nd"
  using assms(1)
proof cases
  case task
  then show ?thesis
    using assms(2) by (elim task_stepE) (auto simp: radio_off_def start_defined worker_defs Let_def split: prod.splits)
qed (use assms(2) in \<open>simp add: radio_off_def\<close>)

text \<open>What the tasks do with the device: receive and send.\<close>

definition radio_use :: "'l lora_driver_api \<Rightarrow> 'l \<Rightarrow> 'l \<Rightarrow> bool" where
  "radio_use L l l' \<longleftrightarrow> l' = snd (lora_recv L LORA_RX_BUFFER_SIZE l) \<or> (\<exists>pkt. l' = snd (lora_send L pkt (length pkt) l))"

lemma in_packet_radio [simp]: "n_radio (lora_in_packet E now len buf rssi snr nd) = n_radio nd"
proof -
  have "n_radio (lora_in_message E now im nd) = n_radio nd" for im
    by (cases rule: in_message_shape [of E now im nd])
      (simp_all add: apply_config_set_def noted_def Let_def split: prod.split)
  then show ?thesis by (simp add: lora_in_packet_def Let_def split: sum.split)
qed

lemma node_step_radio:
  assumes "node_step E nd nd'"
  shows "(radio_use (p_lora E))\<^sup>*\<^sup>* (n_radio nd) (n_radio nd')"
  using assms
proof cases
  case task
  then have "n_radio nd' = n_radio nd \<or> radio_use (p_lora E) (n_radio nd) (n_radio nd')"
    by (elim task_stepE)
      (auto simp: start_defined worker_defs lora_in_iteration_def lora_out_iteration_def forward_timer_def
        radio_use_def Let_def split: prod.splits sum.splits)
  then show ?thesis by auto
qed simp

text \<open>A node without a key: \<open>main\<close> does not get past \<open>ts_auth_init\<close> and every signature fails.\<close>

definition keyless :: "('e, 'd, 'k, 'n, 'w, 'z, 'l, 's) platform \<Rightarrow> ('k, 'n, 'w, 'z, 'l, 's) node \<Rightarrow> bool" where
  "keyless E nd \<longleftrightarrow> main_pc nd \<in> {Main_Auth, Main_Returned (-EINVAL)} \<and> sensor_periodic_timer nd = None \<and> routing_table_age_timer nd = None \<and>
     \<not> sensor_take_reading nd \<and> \<not> routing_table_age_work nd \<and>
     length (pool (n_pool nd)) = TS_CONTENTION_POOL_SIZE \<and> (\<forall>s \<in> set (pool (n_pool nd)). \<not> ct_occupied s) \<and>
     (\<forall>d. fst (psa_mac_compute (p_psa E) (psa_store (n_auth nd)) (auth_key_id (n_auth nd)) PSA_ALG_CMAC d) \<noteq> PSA_SUCCESS)"

text \<open>The device is asked for a packet.\<close>

definition recv_only :: "'l lora_driver_api \<Rightarrow> 'l \<Rightarrow> 'l \<Rightarrow> bool" where
  "recv_only L l l' \<longleftrightarrow> l' = snd (lora_recv L LORA_RX_BUFFER_SIZE l)"

lemma keyless_sign:
  assumes "keyless E nd"
  shows "ts_auth_sign (p_psa E) (Some d) n (n_auth nd) = Inl (-EIO)" "lora_out_packet E (n_auth nd) m \<noteq> Inr pkt"
proof -
  show *: "ts_auth_sign (p_psa E) (Some d) n (n_auth nd) = Inl (-EIO)" for d n
    using assms by (auto simp: keyless_def ts_auth_sign_def split: prod.split) (metis fst_conv)+
  show "lora_out_packet E (n_auth nd) m \<noteq> Inr pkt"
    by (simp add: lora_out_packet_def Let_def * split: sum.split)
qed

lemma keyless_rx:
  assumes "keyless E nd"
  shows "lora_in_iteration E now nd = nd\<lparr>n_radio := snd (lora_recv (p_lora E) LORA_RX_BUFFER_SIZE (n_radio nd))\<rparr>"
proof -
  have "ts_auth_verify (p_psa E) (Some b) k t (n_auth nd) \<noteq> 0" for b k t
    by (simp add: ts_auth_verify_def keyless_sign(1) [OF assms])
  then show ?thesis by (simp add: lora_in_iteration_def lora_in_packet_def Let_def split: prod.split)
qed

lemma keyless_tx:
  assumes "keyless E nd"
  shows "\<exists>z. lora_out_iteration E nd = nd\<lparr>n_bus := z\<rparr>"
  using keyless_sign(2) [OF assms]
  by (auto simp: lora_out_iteration_def Let_def split: prod.split sum.split)

lemma keyless_task:
  assumes "task_step E nd nd'" "keyless E nd"
  shows "keyless E nd' \<and> (recv_only (p_lora E))\<^sup>*\<^sup>* (n_radio nd) (n_radio nd') \<and> n_config nd' = n_config nd \<and>
    n_routing nd' = n_routing nd \<and> n_table nd' = n_table nd"
  using assms(1)
proof cases
  case in_start
  with assms(2) show ?thesis by (auto simp: start_defined keyless_def init_pool)
next
  case (rx now)
  with assms(2) keyless_rx [OF assms(2)] show ?thesis
    by (auto simp: keyless_def recv_only_def intro: r_into_rtranclp)
next
  case tx
  with assms(2) keyless_tx [OF assms(2)] show ?thesis by (auto simp: keyless_def)
next
  case (fire i)
  then have "\<not> ct_occupied (pool (n_pool nd) ! i)" using assms(2) by (simp add: keyless_def)
  with assms(2) fire show ?thesis
    by (simp add: forward_timer_def ts_contention_work_handler_def contention_claim_def Let_def)
qed (use assms(2) in \<open>auto simp: start_defined keyless_def\<close>)

lemma keyless_step:
  assumes "node_step E nd nd'" "keyless E nd"
    and "length (p_network_key E) \<noteq> 2 * TS_AUTH_KEY_SIZE \<or> (\<exists>c \<in> set (p_network_key E). hex_digit c = None)"
  shows "keyless E nd' \<and> (recv_only (p_lora E))\<^sup>*\<^sup>* (n_radio nd) (n_radio nd') \<and> n_config nd' = n_config nd \<and>
    n_routing nd' = n_routing nd \<and> n_table nd' = n_table nd"
  using assms(1)
proof cases
  case task
  then show ?thesis by (rule keyless_task [OF _ assms(2)])
next
  case main
  from malformed_key [OF assms(3), of "p_psa E" "n_auth nd"] obtain a where
    "ts_auth_init (p_psa E) (p_network_key E) (n_auth nd) = (-EINVAL, a)" "psa_store a = psa_store (n_auth nd)"
    "auth_key_id a = auth_key_id (n_auth nd)" by blast
  with main assms(2) show ?thesis by (auto simp: keyless_def main_step_def)
qed

section \<open>The duplicate filter along a run of received messages\<close>

text \<open>How a received message moves the window: not at all, or by one entry.\<close>

lemma seen_prepare [simp]:
  "seen_recent (snd (ts_routing_prepare_header cfg h d rs)) = seen_recent rs"
  "seen_left (snd (ts_routing_prepare_header cfg h d rs)) = seen_left rs"
  "seen_valid (snd (ts_routing_prepare_header cfg h d rs)) = seen_valid rs"
  by (simp_all add: ts_routing_prepare_header_def seen_recent_def seen_left_def seen_valid_def)

lemma apply_config_routing:
  "n_routing (apply_config_set E h c nd) =
    snd (ts_routing_prepare_header (ts_config_get (snd (ts_config_set (p_settings E) (cstr (cs_key c)) (cs_value c)
      (n_config nd)))) zero_header (rh_src h) (n_routing nd))"
  by (simp add: apply_config_set_def Let_def split: prod.split)

definition window :: "routing_state \<Rightarrow> (uint16_t \<times> uint32_t) list \<times> nat \<times> bool" where
  "window rs = (seen_recent rs, seen_left rs, seen_valid rs)"

lemma in_message_window:
  "window (n_routing (lora_in_message E now im nd)) = window (n_routing nd) \<or>
   window (n_routing (lora_in_message E now im nd)) =
     window (ts_routing_mark_seen (msg_route (in_msg im)) (n_routing nd))"
  by (cases rule: in_message_shape [of E now im nd])
    (simp_all add: apply_config_routing window_def noted_def)

definition handle_all ::
  "('e, 'd, 'k, 'n, 'w, 'z, 'l, 's) platform \<Rightarrow> (uint32_t \<times> ts_msg_lora_incoming) list \<Rightarrow>
   ('k, 'n, 'w, 'z, 'l, 's) node \<Rightarrow> ('k, 'n, 'w, 'z, 'l, 's) node" where
  "handle_all E ims nd = fold (\<lambda>(now, im) nd. lora_in_message E now im nd) ims nd"

lemma handle_all_remembers:
  assumes "seen_valid (n_routing nd)" "length ims \<le> seen_left (n_routing nd)"
    and "k \<in> set (take j (seen_recent (n_routing nd)))" "j + length ims \<le> 32"
  shows "seen_valid (n_routing (handle_all E ims nd)) \<and>
    k \<in> set (take (j + length ims) (seen_recent (n_routing (handle_all E ims nd))))"
  using assms
proof (induction ims arbitrary: nd j)
  case Nil
  then show ?case by (simp add: handle_all_def)
next
  case (Cons x ims)
  obtain now im where x: "x = (now, im)" by fastforce
  let ?nd = "lora_in_message E now im nd"
  have all: "handle_all E (x # ims) nd = handle_all E ims ?nd" by (simp add: handle_all_def x)
  have l: "0 < seen_left (n_routing nd)" using Cons.prems(2) by simp
  have w: "seen_valid (n_routing ?nd)" "length ims \<le> seen_left (n_routing ?nd)"
    "k \<in> set (take (Suc j) (seen_recent (n_routing ?nd)))"
  proof -
    have m: "k \<in> set (take (Suc j) (seen_recent (n_routing nd)))"
      using Cons.prems(3) set_take_subset_set_take [of j "Suc j" "seen_recent (n_routing nd)"] by auto
    have m': "k \<in> set (take (Suc j) (y # take 31 (seen_recent (n_routing nd))))" for y
      using Cons.prems(3,4) by (simp add: min_def)
    note mark = seen.recent_mark [OF Cons.prems(1) l] seen.valid_mark [OF Cons.prems(1) l]
      seen.left_mark [OF Cons.prems(1) l]
    from in_message_window [of E now im nd]
    have "seen_valid (n_routing ?nd) \<and> length ims \<le> seen_left (n_routing ?nd) \<and>
      k \<in> set (take (Suc j) (seen_recent (n_routing ?nd)))"
    proof
      assume "window (n_routing ?nd) = window (n_routing nd)"
      with m Cons.prems(1,2) show ?thesis by (simp add: window_def)
    next
      assume "window (n_routing ?nd) = window (ts_routing_mark_seen (msg_route (in_msg im)) (n_routing nd))"
      with m' [of "hdr_key (msg_route (in_msg im))"] mark Cons.prems(2) show ?thesis
        by (simp add: window_def del: take_Suc_Cons)
    qed
    then show "seen_valid (n_routing ?nd)" "length ims \<le> seen_left (n_routing ?nd)"
      "k \<in> set (take (Suc j) (seen_recent (n_routing ?nd)))" by simp_all
  qed
  with Cons.IH [of ?nd "Suc j"] Cons.prems(4) show ?case by (simp add: all)
qed

lemma handle_all_self:
  "self_node_id (n_routing (handle_all E ims nd)) = self_node_id (n_routing nd)"
proof (induction ims arbitrary: nd)
  case (Cons x ims)
  obtain now im where x: "x = (now, im)" by fastforce
  have "self_node_id (n_routing (lora_in_message E now im nd)) = self_node_id (n_routing nd)"
    by (cases rule: in_message_shape [of E now im nd])
      (simp_all add: apply_config_routing prepare_self noted_def)
  with Cons [of "lora_in_message E now im nd"] show ?case by (simp add: handle_all_def x)
qed (simp add: handle_all_def)

lemma in_message_fresh_window:
  assumes "fresh_for E (msg_route (in_msg im)) nd"
  shows "window (n_routing (lora_in_message E now im nd)) =
    window (ts_routing_mark_seen (msg_route (in_msg im)) (n_routing nd))"
  using assms
  by (auto simp: lora_in_message_def fresh_for_def ts_routing_get_node_id_def Let_def
      apply_config_routing window_def split: ts_msg_data.split bool.split)

lemma handle_all_append:
  "handle_all E (xs @ ys) nd = handle_all E ys (handle_all E xs nd)"
  by (simp add: handle_all_def)

lemma handle_all_ok: "node_ok nd \<Longrightarrow> node_ok (handle_all E ims nd)"
proof (induction ims arbitrary: nd)
  case (Cons x ims)
  then show ?case
    using in_message_ok [OF Cons.prems, of E "fst x" "snd x"] by (cases x) (simp add: handle_all_def)
qed (simp add: handle_all_def)

lemma handle_all_valid:
  "seen_valid (n_routing nd) \<Longrightarrow> length ims \<le> seen_left (n_routing nd) \<Longrightarrow>
   seen_valid (n_routing (handle_all E ims nd)) \<and>
   seen_left (n_routing nd) \<le> seen_left (n_routing (handle_all E ims nd)) + length ims"
proof (induction ims arbitrary: nd)
  case (Cons x ims)
  obtain now im where x: "x = (now, im)" by fastforce
  let ?nd = "lora_in_message E now im nd"
  have l: "0 < seen_left (n_routing nd)" using Cons.prems(2) by simp
  have "seen_valid (n_routing ?nd) \<and> seen_left (n_routing nd) \<le> seen_left (n_routing ?nd) + 1"
    using in_message_window [of E now im nd] Cons.prems(1) seen.valid_mark [OF Cons.prems(1) l]
      seen.left_mark [OF Cons.prems(1) l] l by (auto simp: window_def)
  with Cons.IH [of ?nd] Cons.prems(2) show ?case by (simp add: handle_all_def x)
qed (simp add: handle_all_def)

text \<open>A copy of an accepted message, while it is in the window.\<close>

lemma copy_only_cancels:
  assumes "n_routing nd0 = ts_routing_init nid" and "node_ok nd0"
    and "length before + length between < 2 ^ 32 - 1" and "length between < 32"
    and "fresh_for E (msg_route (in_msg im)) (handle_all E before nd0)"
    and "nd = handle_all E (before @ (now, im) # between) nd0"
    and "msg_key (in_msg im') = msg_key (in_msg im)" and "rh_key_id (msg_route (in_msg im')) = ts_auth_get_key_id (p_key_id E)"
  shows "\<exists>p. lora_in_message E now' im' nd = nd\<lparr>n_pool := p\<rparr> \<and> pool_ok p \<and>
    (if \<exists>m. m \<in># pending (n_pool nd) \<and> msg_key m = msg_key (in_msg im)
     then \<exists>m. msg_key m = msg_key (in_msg im) \<and> pending (n_pool nd) = add_mset m (pending p)
     else p = n_pool nd)"
proof -
  let ?a = "handle_all E before nd0" let ?b = "lora_in_message E now im ?a"
  let ?h = "msg_route (in_msg im)" and ?h' = "msg_route (in_msg im')"
  let ?c = "ts_contention_cancel (p_work E) (rh_src ?h) (rh_msg_id ?h) (n_pool nd)"
  have nd: "nd = handle_all E between ?b" unfolding assms(6) handle_all_append by (simp add: handle_all_def)
  have a: "seen_valid (n_routing ?a)" "Suc (length between) \<le> seen_left (n_routing ?a)"
    using handle_all_valid [of nd0 before E] assms(1,3) seen_valid_init by auto
  then have l: "0 < seen_left (n_routing ?a)" by simp
  have w: "window (n_routing ?b) = window (ts_routing_mark_seen ?h (n_routing ?a))"
    by (rule in_message_fresh_window [OF assms(5)])
  note mark = seen.recent_mark [OF a(1) l, of ?h] seen.valid_mark [OF a(1) l, of ?h] seen.left_mark [OF a(1) l, of ?h]
  have b: "seen_valid (n_routing ?b)" "length between \<le> seen_left (n_routing ?b)"
    "hdr_key ?h \<in> set (take 1 (seen_recent (n_routing ?b)))"
    using w mark a(2) by (simp_all add: window_def)
  from handle_all_remembers [OF b, of E] assms(4)
  have "seen_valid (n_routing nd)" "hdr_key ?h \<in> set (seen_recent (n_routing nd))"
    unfolding nd by (auto dest: in_set_takeD)
  moreover have k: "hdr_key ?h' = hdr_key ?h" using assms(7) by (simp add: msg_key_def hdr_key_def)
  ultimately have dup: "ts_routing_is_duplicate (n_routing nd) ?h'" by (simp add: seen.dup_iff)
  have self: "self_node_id (n_routing nd) = nid"
    unfolding assms(6) handle_all_self assms(1) by (simp add: ts_routing_init_def)
  have "rh_src ?h' = rh_src ?h" "rh_msg_id ?h' = rh_msg_id ?h" using k by (simp_all add: hdr_key_def)
  moreover have "rh_src ?h \<noteq> nid"
    using assms(5) by (simp add: fresh_for_def handle_all_self assms(1)) (simp add: ts_routing_init_def)
  ultimately
  have step: "lora_in_message E now' im' nd =
      nd\<lparr>n_pool := snd ?c\<rparr>"
    using dup self assms(8) by (simp add: lora_in_message_def ts_routing_get_node_id_def)
  have "pool_ok (n_pool nd)" using handle_all_ok [OF assms(2), of E "before @ (now, im) # between"] unfolding assms(6) by (simp add: node_ok_def)
  from cancel_pending [OF this, of "p_work E" "rh_src ?h" "rh_msg_id ?h" "fst ?c" "snd ?c"] step show ?thesis
    by (intro exI [of _ "snd ?c"]) (auto simp: msg_key_def [of "in_msg im"] split: if_splits)
qed

section \<open>Message ids along a run of the main loop\<close>

definition heartbeats ::
  "('e, 'd, 'k, 'n, 'w, 'z, 'l, 's) platform \<Rightarrow> uint32_t list \<Rightarrow> ('k, 'n, 'w, 'z, 'l, 's) node \<Rightarrow> ('k, 'n, 'w, 'z, 'l, 's) node" where
  "heartbeats E ts nd = foldl (\<lambda>nd now. heartbeat E now nd) nd ts"

lemma heartbeats_routing:
  "self_node_id (n_routing (heartbeats E ts nd)) = self_node_id (n_routing nd)"
  "next_msg_id (n_routing (heartbeats E ts nd)) = next_msg_id (n_routing nd) + of_nat (length ts)"
  by (induction ts arbitrary: nd) (simp_all add: heartbeats_def heartbeat_def ts_routing_prepare_header_def)

lemma main_steps_rtranclp: "(node_step E)\<^sup>*\<^sup>* nd ((main_step E ^^ k) nd)"
  by (induction k) (auto intro: rtranclp.rtrancl_into_rtrancl node_step.main)

lemma boot_run: "(node_step E)\<^sup>*\<^sup>* (after_sys_init E nd) (boot E nd)"
  unfolding boot_def by (rule main_steps_rtranclp)

lemma boot_loop:
  assumes "main_pc nd = Main_Auth" "ts_auth_init (p_psa E) (p_network_key E) (n_auth nd) = (0, a)"
    and "ts_config_init (p_settings E) (n_config nd) = (0, c)"
  shows "boot E nd = (after_sys_init E nd)\<lparr>n_auth := a, n_config := c, n_routing := ts_routing_init (node_id (ts_config_get c)),
    n_table := ts_routing_table_init, sensor_periodic_timer := Some (1, sensor_interval_s (ts_config_get c)),
    routing_table_age_timer := Some (routing_table_age_interval_s (ts_config_get c),
      routing_table_age_interval_s (ts_config_get c)), main_pc := Main_Loop\<rparr>"
proof -
  have "n_auth (after_sys_init E nd) = n_auth nd" "n_config (after_sys_init E nd) = n_config nd"
    "main_pc (after_sys_init E nd) = Main_Auth"
    using assms(1) by (simp_all add: after_sys_init_def lora_init_def Let_def split: prod.split)
  with assms(2,3) show ?thesis by (simp add: boot_def eval_nat_numeral main_step_def Let_def)
qed

lemma main_returned: "main_pc nd = Main_Returned r \<Longrightarrow> (main_step E ^^ k) nd = nd"
  by (induction k) (simp_all add: main_step_def Let_def)

lemma boot_routing:
  assumes "main_pc nd = Main_Auth" "main_running (boot E nd)"
  shows "n_routing (boot E nd) = ts_routing_init (node_id (ts_config_get (n_config (boot E nd))))"
proof -
  let ?i = "after_sys_init E nd"
  obtain r a where a: "ts_auth_init (p_psa E) (p_network_key E) (n_auth nd) = (r, a)" by fastforce
  obtain r' c where c: "ts_config_init (p_settings E) (n_config nd) = (r', c)" by fastforce
  have i: "n_auth ?i = n_auth nd" "n_config ?i = n_config nd" "main_pc ?i = Main_Auth"
    using assms(1) by (simp_all add: after_sys_init_def lora_init_def Let_def split: prod.split)
  have 6: "boot E nd = (main_step E ^^ 5) (main_step E ?i)" "boot E nd = (main_step E ^^ 4) (main_step E (main_step E ?i))"
    by (simp_all add: boot_def eval_nat_numeral)
  have 1: "main_step E ?i = ?i\<lparr>n_auth := a, main_pc := (if r \<noteq> 0 then Main_Returned r else Main_Config)\<rparr>"
    using i a by (simp add: main_step_def)
  have "r = 0"
  proof (rule ccontr)
    assume "r \<noteq> 0"
    with 1 main_returned [of "main_step E ?i" r 5 E] 6(1) assms(2) show False by simp
  qed
  moreover from this 1 i c have 2: "main_step E (main_step E ?i) =
      ?i\<lparr>n_auth := a, n_config := c, main_pc := (if r' \<noteq> 0 then Main_Returned r' else Main_Routing)\<rparr>"
    by (simp add: main_step_def)
  have "r' = 0"
  proof (rule ccontr)
    assume "r' \<noteq> 0"
    with 2 main_returned [of "main_step E (main_step E ?i)" r' 4 E] 6(2) assms(2) show False by simp
  qed
  ultimately show ?thesis using boot_loop [OF assms(1), of E a c] a c by simp
qed

section \<open>From the pool to the air\<close>

lemma fire_slot:
  assumes "ct_occupied (pool (n_pool nd) ! i)"
  shows "n_bus (forward_timer E i nd) = snd (zbus_chan_pub_out (p_zbus E) (ct_msg (pool (n_pool nd) ! i)) (n_bus nd))"
  using assms by (simp add: forward_timer_def ts_contention_work_handler_def contention_claim_def Let_def)

lemma forward_timer_fields [simp]:
  "n_auth (forward_timer E i nd) = n_auth nd" "n_radio (forward_timer E i nd) = n_radio nd"
  by (simp_all add: forward_timer_def split: prod.split)

text \<open>The transmit task sends the message published last, when bus and radio work.\<close>

context zbus
begin

lemma transmits_current:
  assumes "p_zbus E = B" "\<And>z. 0 < notified z \<Longrightarrow> fst (zbus_sub_wait B z) = 0"
    and "\<And>z. fst (zbus_chan_read_out B z) = 0" "0 < notified (n_bus nd)"
    and "lora_out_packet E (n_auth nd) (current (n_bus nd)) = Inr pkt"
  shows "n_radio (lora_out_iteration E nd) = snd (lora_send (p_lora E) pkt (length pkt) (n_radio nd))"
proof -
  obtain c z1 where w: "zbus_sub_wait B (n_bus nd) = (0, c, z1)"
    using assms(2) [OF assms(4)] by (metis prod.collapse)
  obtain m z2 where r: "zbus_chan_read_out B z1 = (0, m, z2)"
    using assms(3) [of z1] by (metis prod.collapse)
  from sub_wait [OF w] read_out [OF r] w r assms(1,5) show ?thesis by (simp add: lora_out_iteration_def)
qed

end

text \<open>A fresh message on its way through a node: received, queued, timed out, sent.\<close>

lemma relays_fresh:
  assumes "zbus (p_zbus E) current notified delivered"
    and "\<And>m z. notified z = 0 \<Longrightarrow> fst (zbus_chan_pub_out (p_zbus E) m z) = 0"
    and "\<And>z. 0 < notified z \<Longrightarrow> fst (zbus_sub_wait (p_zbus E) z) = 0"
    and "\<And>z. fst (zbus_chan_read_out (p_zbus E) z) = 0"
    and "node_ok nd" and "fresh_for E (msg_route (in_msg im)) nd" and "wf_data (msg_data (in_msg im))"
    and "msg_type (msg_data (in_msg im)) \<notin> {TS_MSG_CONFIG_SET, TS_MSG_CONFIG_ACK}"
    and "2 \<le> rh_ttl (msg_route (in_msg im))" and "size (pending (n_pool nd)) < TS_CONTENTION_POOL_SIZE"
    and "notified (n_bus nd) = 0"
    and "lora_out_packet E (n_auth nd) ((in_msg im)\<lparr>msg_route :=
           (msg_route (in_msg im))\<lparr>rh_ttl := rh_ttl (msg_route (in_msg im)) - 1\<rparr>\<rparr>) = Inr pkt"
  shows "\<exists>i < TS_CONTENTION_POOL_SIZE.
    n_radio (lora_out_iteration E (forward_timer E i (lora_in_message E now im nd))) =
      snd (lora_send (p_lora E) pkt (length pkt) (n_radio nd))"
proof -
  let ?h = "msg_route (in_msg im)" and ?nd = "lora_in_message E now im nd"
  let ?m = "(in_msg im)\<lparr>msg_route := ?h\<lparr>rh_ttl := rh_ttl ?h - 1\<rparr>\<rparr>"
  let ?z = "if ts_routing_is_for_us (n_routing nd) ?h then snd (zbus_chan_pub_in (p_zbus E) im (n_bus nd)) else n_bus nd"
  have nd: "?nd = forward_message E (in_msg im) (in_rssi im) ((noted now im nd)\<lparr>n_bus := ?z\<rparr>)"
    using in_message_fresh [OF assms(6,7), of now] assms(8) by (simp add: Let_def)
  have ok: "pool_ok (n_pool nd)" using assms(5) by (simp add: node_ok_def)
  from scheduled_slot [OF ok assms(10), of "p_work E" "ts_config_get (n_config nd)" ?m "in_rssi im"] assms(9)
  obtain i where
    i: "i < TS_CONTENTION_POOL_SIZE" "ct_occupied (pool (n_pool ?nd) ! i)" "ct_msg (pool (n_pool ?nd) ! i) = ?m"
    unfolding nd forward_pool by (auto simp: noted_def)
  have z: "notified (n_bus ?nd) = 0"
    using zbus.pub_in [OF assms(1) prod.collapse [symmetric], of im "n_bus nd"] assms(11)
    unfolding nd by (simp add: noted_def)
  let ?f = "forward_timer E i ?nd"
  have "zbus_chan_pub_out (p_zbus E) ?m (n_bus ?nd) = (0, n_bus ?f)"
    using assms(2) [OF z] fire_slot [OF i(2), of E] i(3) by (simp add: prod_eq_iff)
  from zbus.pub_out [OF assms(1) this] have b: "current (n_bus ?f) = ?m" "0 < notified (n_bus ?f)" by simp_all
  have a: "n_auth ?f = n_auth nd" "n_radio ?f = n_radio nd"
    by (simp_all add: nd noted_def)
  from zbus.transmits_current [OF assms(1) refl assms(3,4) b(2), of pkt] b(1) a assms(12) i(1)
  show ?thesis by (intro exI [of _ i]) simp
qed

text \<open>A fresh broadcast that is no configuration message.\<close>

lemma fresh_broadcast:
  assumes "zbus (p_zbus E) current notified delivered" "fst (zbus_chan_pub_in (p_zbus E) im (n_bus nd)) = 0"
    and "fresh_for E (msg_route (in_msg im)) nd" "wf_data (msg_data (in_msg im))"
    and "msg_type (msg_data (in_msg im)) \<notin> {TS_MSG_CONFIG_SET, TS_MSG_CONFIG_ACK}"
    and "rh_dst (msg_route (in_msg im)) = TS_ROUTING_BROADCAST_ADDR" "node_ok nd"
    and "2 \<le> rh_ttl (msg_route (in_msg im))" "size (pending (n_pool nd)) < TS_CONTENTION_POOL_SIZE"
  shows "delivered (n_bus (lora_in_message E now im nd)) = delivered (n_bus nd) @ [im]"
    and "pending (n_pool (lora_in_message E now im nd)) = add_mset ((in_msg im)\<lparr>msg_route :=
      (msg_route (in_msg im))\<lparr>rh_ttl := rh_ttl (msg_route (in_msg im)) - 1\<rparr>\<rparr>) (pending (n_pool nd))"
    and "n_config (lora_in_message E now im nd) = n_config nd"
proof -
  let ?z = "snd (zbus_chan_pub_in (p_zbus E) im (n_bus nd))"
  let ?n = "(noted now im nd)\<lparr>n_bus := ?z\<rparr>"
  have n: "lora_in_message E now im nd = forward_message E (in_msg im) (in_rssi im) ?n"
    using in_message_fresh [OF assms(3,4), of now] assms(5,6) by (simp add: ts_routing_is_for_us_def)
  show "delivered (n_bus (lora_in_message E now im nd)) = delivered (n_bus nd) @ [im]"
    using zbus.pub_in [OF assms(1), of im "n_bus nd" 0 ?z] assms(2) by (simp add: n prod_eq_iff)
  show "pending (n_pool (lora_in_message E now im nd)) = add_mset ((in_msg im)\<lparr>msg_route :=
      (msg_route (in_msg im))\<lparr>rh_ttl := rh_ttl (msg_route (in_msg im)) - 1\<rparr>\<rparr>) (pending (n_pool nd))"
    using forward_pending [of ?n E "in_msg im" "in_rssi im"] assms(7-9) by (simp add: n node_ok_def noted_def)
  show "n_config (lora_in_message E now im nd) = n_config nd" by (simp add: n noted_def)
qed

section \<open>A reference node\<close>

text \<open>An emulated board: loopback radio, mock sensor, and the reference implementations of the
  libraries.\<close>

definition ref_platform ::
  "(bytes \<times> nat, bytes \<times> nat, ref_keys, ref_nvs, uint32_t option, ref_bus,
    (nat \<times> lora_mock_packet list) lora_mock_data, uint32_t) platform" where
  "ref_platform =
    \<lparr> p_zcbor = ref_zcbor, p_psa = ref_psa, p_settings = ref_settings, p_work = ref_k_work,
      p_zbus = ref_zbus, p_lora = lora_mock_api ref_k_msgq,
      p_sensor = ts_sensor_backend_read_mock (\<lambda>s. (s * 1664525 + 1013904223, s * 1664525 + 1013904223)),
      p_network_key = ref_key_hex, p_key_id = 1 \<rparr>"

definition ref_power_up :: "ref_nvs \<Rightarrow> (ref_keys, ref_nvs, uint32_t option, ref_bus,
    (nat \<times> lora_mock_packet list) lora_mock_data, uint32_t) node" where
  "ref_power_up stored =
    \<lparr> n_auth = blank_auth, n_config = \<lparr>live_config = config_image TS_CONFIG_DEFAULTS, nvs = stored\<rparr>,
      n_routing = ts_routing_init 0, n_table = ts_routing_table_init, n_pool = blank_pool,
      n_bus = (zero_msg, 0, []), n_radio = snd (lora_mock_init ref_k_msgq blank_mock), n_sensor = 1,
      lora_ready_sem = False, sensor_periodic_timer = None, routing_table_age_timer = None,
      sensor_take_reading = False, routing_table_age_work = False,
      lora_out_running = False, lora_in_running = False, main_pc = Main_Auth \<rparr>"

text \<open>The node after \<open>main\<close> has entered its loop, and after both radio tasks have.\<close>

definition ref_booted :: "(ref_keys, ref_nvs, uint32_t option, ref_bus,
    (nat \<times> lora_mock_packet list) lora_mock_data, uint32_t) node" where
  "ref_booted = boot ref_platform (ref_power_up [])"

definition ref_node :: "(ref_keys, ref_nvs, uint32_t option, ref_bus,
    (nat \<times> lora_mock_packet list) lora_mock_data, uint32_t) node" where
  "ref_node = the (lora_in_start ref_platform (the (lora_out_start ref_booted)))"

lemma ref_power_up_ok: "power_up (ref_power_up stored)"
  using blank_pool_length by (simp add: power_up_def ref_power_up_def) (simp add: blank_pool_def)

lemma ref_booted_simps:
    "n_auth ref_booted = ref_auth" "n_config ref_booted = fresh_config"
    "n_routing ref_booted = ts_routing_init 1" "n_table ref_booted = ts_routing_table_init"
    "n_pool ref_booted = blank_pool" "n_bus ref_booted = (zero_msg, 0, [])"
    "n_radio ref_booted = snd (lora_mock_config (lora_populate_modem_config TS_CONFIG_DEFAULTS)
       (snd (lora_mock_init ref_k_msgq blank_mock)))"
    "lora_ready_sem ref_booted" "\<not> lora_out_running ref_booted" "\<not> lora_in_running ref_booted"
    "main_running ref_booted"
proof -
  let ?p = "ref_power_up []"
  have c: "\<lparr>live_config = config_image TS_CONFIG_DEFAULTS, nvs = []\<rparr> = fresh_config"
    by (simp add: fresh_config_def)
  have g: "ts_config_get fresh_config = TS_CONFIG_DEFAULTS" by (simp add: ts_config_get_def)
  have "node_id TS_CONFIG_DEFAULTS = 1" by (simp add: TS_CONFIG_DEFAULTS_def)
  note * = after_sys_init_def lora_init_def ref_platform_def ref_power_up_def
    lora_mock_api_def lora_mock_config_def c g this Let_def
  have b: "boot ref_platform ?p = (after_sys_init ref_platform ?p)\<lparr>n_auth := ref_auth, n_config := fresh_config,
    n_routing := ts_routing_init (node_id (ts_config_get fresh_config)),
    n_table := ts_routing_table_init, sensor_periodic_timer := Some (1, sensor_interval_s (ts_config_get fresh_config)),
    routing_table_age_timer := Some (routing_table_age_interval_s (ts_config_get fresh_config),
      routing_table_age_interval_s (ts_config_get fresh_config)), main_pc := Main_Loop\<rparr>"
    by (rule boot_loop) (simp_all add: ref_platform_def ref_power_up_def ref_auth_init c ref_init_fresh)
  show
    "n_auth ref_booted = ref_auth" "n_config ref_booted = fresh_config"
    "n_routing ref_booted = ts_routing_init 1" "n_table ref_booted = ts_routing_table_init"
    "n_pool ref_booted = blank_pool" "n_bus ref_booted = (zero_msg, 0, [])"
    "n_radio ref_booted = snd (lora_mock_config (lora_populate_modem_config TS_CONFIG_DEFAULTS)
       (snd (lora_mock_init ref_k_msgq blank_mock)))"
    "lora_ready_sem ref_booted" "\<not> lora_out_running ref_booted" "\<not> lora_in_running ref_booted"
    "main_running ref_booted"
    by (simp_all only: ref_booted_def b) (simp_all add: *)
qed

lemma ref_started: "(node_step ref_platform)\<^sup>*\<^sup>* ref_booted ref_node"
  and ref_node_simps [simp]:
    "n_auth ref_node = ref_auth" "n_config ref_node = fresh_config"
    "n_routing ref_node = ts_routing_init 1" "n_table ref_node = ts_routing_table_init"
    "n_pool ref_node = ts_contention_init ref_k_work blank_pool" "n_bus ref_node = (zero_msg, 0, [])"
    "n_radio ref_node = snd (lora_mock_config (lora_populate_modem_config TS_CONFIG_DEFAULTS)
       (snd (lora_mock_init ref_k_msgq blank_mock)))"
    "lora_out_running ref_node" "lora_in_running ref_node" "main_running ref_node"
proof -
  let ?o = "ref_booted\<lparr>lora_ready_sem := True, lora_out_running := True\<rparr>"
  have o: "lora_out_start ref_booted = Some ?o" by (simp add: start_defined ref_booted_simps)
  then have i: "lora_in_start ref_platform ?o = Some ref_node" and
    nd: "ref_node = ?o\<lparr>n_pool := ts_contention_init ref_k_work blank_pool, lora_in_running := True\<rparr>"
    by (simp_all add: ref_node_def lora_in_start_def pass_ready_sem_def ref_platform_def ref_booted_simps Let_def)
  have "task_step ref_platform ref_booted ?o" "task_step ref_platform ?o ref_node"
    by (rule task_step.out_start [OF _ o] task_step.in_start [OF _ i]; simp add: ref_booted_simps)+
  then show "(node_step ref_platform)\<^sup>*\<^sup>* ref_booted ref_node" by (meson node_step.task converse_rtranclp_into_rtranclp r_into_rtranclp)
  show "n_auth ref_node = ref_auth" "n_config ref_node = fresh_config"
    "n_routing ref_node = ts_routing_init 1" "n_table ref_node = ts_routing_table_init"
    "n_pool ref_node = ts_contention_init ref_k_work blank_pool" "n_bus ref_node = (zero_msg, 0, [])"
    "n_radio ref_node = snd (lora_mock_config (lora_populate_modem_config TS_CONFIG_DEFAULTS)
       (snd (lora_mock_init ref_k_msgq blank_mock)))"
    "lora_out_running ref_node" "lora_in_running ref_node" "main_running ref_node"
    by (simp_all add: nd ref_booted_simps)
qed

lemma ref_platform_simps [simp]:
  "p_zcbor ref_platform = ref_zcbor" "p_psa ref_platform = ref_psa" "p_settings ref_platform = ref_settings"
  "p_work ref_platform = ref_k_work" "p_zbus ref_platform = ref_zbus" "p_lora ref_platform = lora_mock_api ref_k_msgq"
  "p_network_key ref_platform = ref_key_hex" "p_key_id ref_platform = 1"
  by (simp_all add: ref_platform_def)

lemma ref_zbus_works:
  "fst (snd z) = 0 \<Longrightarrow> fst (zbus_chan_pub_out ref_zbus m z) = 0" "fst (zbus_chan_pub_in ref_zbus im z) = 0"
  "0 < fst (snd z) \<Longrightarrow> fst (zbus_sub_wait ref_zbus z) = 0" "fst (zbus_chan_read_out ref_zbus z) = 0"
  by (cases z; simp add: ref_zbus_def)+

lemma ref_node_ok: "node_ok ref_node" "pending (n_pool ref_node) = {#}"
  using init_pool_ok [OF blank_pool_length, of ref_k_work] table_ok_init
  by (simp_all add: node_ok_def config_ok_def ts_config_get_def defaults_in_range seen_shape_def
      ts_routing_init_def TS_ROUTING_SEEN_CACHE_SIZE_def)

lemma ref_mac: "psa_mac_compute ref_psa (psa_store ref_auth) (auth_key_id ref_auth) PSA_ALG_CMAC d =
    (0, ref_cmac ref_key d)"
  by (simp add: ref_psa_def ref_auth_def)

lemma blank_auth_length: "length (network_key blank_auth) = 16"
  by (simp add: blank_auth_def)

text \<open>A broadcast reading of node 7, on its way with three hops left.\<close>

definition ref_reading :: ts_msg_lora_outgoing where
  "ref_reading =
    \<lparr> msg_route = \<lparr>rh_src = 7, rh_dst = 0xFFFF, rh_msg_id = 3, rh_ttl = 3, rh_key_id = 1\<rparr>,
      msg_data = Telemetry \<lparr>tel_timestamp = 60, tel_temperature = 2150, tel_humidity = 4500,
                            tel_pressure = 101325\<rparr> \<rparr>"

definition ref_heard :: ts_msg_lora_incoming where
  "ref_heard = \<lparr>in_msg = ref_reading, in_rssi = -42, in_snr = 10\<rparr>"

lemma ref_heard_simps [simp]:
  "in_msg ref_heard = ref_reading" "in_rssi ref_heard = -42" "in_snr ref_heard = 10"
  "rh_src (msg_route ref_reading) = 7" "rh_dst (msg_route ref_reading) = 0xFFFF"
  "rh_msg_id (msg_route ref_reading) = 3" "rh_ttl (msg_route ref_reading) = 3"
  "rh_key_id (msg_route ref_reading) = 1" "msg_type (msg_data ref_reading) = TS_MSG_TELEMETRY"
  by (simp_all add: ref_heard_def ref_reading_def)

lemma ref_reading_wf: "known_type (msg_data ref_reading)" "wf_data (msg_data ref_reading)"
  "received_data (msg_data ref_reading) = msg_data ref_reading"
  "(msg_route ref_reading)\<lparr>rh_key_id := ts_auth_get_key_id 1\<rparr> = msg_route ref_reading"
  by (simp_all add: ref_reading_def ts_auth_get_key_id_def)

lemma ref_not_seen: "\<not> ts_routing_is_duplicate (ts_routing_init nid) h"
  by (simp add: ts_routing_is_duplicate_def ts_routing_init_def)

lemma ref_reading_fresh: "fresh_for ref_platform (msg_route ref_reading) ref_node"
  by (simp add: fresh_for_def ref_not_seen) (simp add: ref_reading_def ts_auth_get_key_id_def ts_routing_init_def)

text \<open>The packets of the reference node, and the node with a packet waiting in its radio.\<close>

lemma ref_packet:
  assumes "known_type (msg_data m)" "wf_data (msg_data m)"
  shows "\<exists>pkt. lora_out_packet ref_platform ref_auth m = Inr pkt \<and> length pkt \<le> 146"
  using built_packet [of ref_platform _ _ _ _ _ ref_key blank_auth ref_auth m] assms
    ref_zcbor.zcbor_sized_axioms ref_psa.psa_axioms denotes_ref_key blank_auth_length ref_auth_init ref_mac
  by (fastforce simp del: length_append)

definition ref_rx :: "bytes \<Rightarrow> (ref_keys, ref_nvs, uint32_t option, ref_bus,
    (nat \<times> lora_mock_packet list) lora_mock_data, uint32_t) node" where
  "ref_rx pkt = ref_node\<lparr>n_radio := (n_radio ref_node)\<lparr>rx_msgq := (4, [mock_packet pkt])\<rparr>\<rparr>"

lemma ref_received:
  assumes "lora_out_packet ref_platform ref_auth ref_reading = Inr pkt" "n_auth nd = ref_auth"
  shows "lora_in_packet ref_platform now (int (length pkt)) pkt (-42) 10 nd =
    lora_in_message ref_platform now ref_heard nd"
  using received_packet [OF _ _ assms(1), of ref_wire snd fst snd ref_platform ref_cmac nd now "-42" 10]
    ref_zcbor.zcbor_axioms ref_psa.psa_axioms ref_reading_wf assms(2)
  by (simp add: ref_heard_def)

end
