(* ===== verification/Mesh.thy ===== *)
theory Mesh
  imports Node
begin

text \<open>
  A path through the mesh: a row of nodes, each of which hears the one before it. The theory
  composes the transmit and receive tasks of neighbouring nodes.
\<close>

section \<open>Working nodes\<close>

text \<open>A node that has loaded the network key, and whose crypto backend works.\<close>

definition provisioned ::
  "(bytes \<Rightarrow> bytes \<Rightarrow> bytes) \<Rightarrow> bytes \<Rightarrow> ('e, 'd, 'k, 'n, 'w, 'z, 'l, 's) platform \<Rightarrow> 'k auth_state \<Rightarrow> bool" where
  "provisioned cmac kb E a \<longleftrightarrow>
     psa (p_psa E) cmac \<and> denotes_key (p_network_key E) kb \<and>
     (\<exists>a0. length (network_key a0) = 16 \<and> ts_auth_init (p_psa E) (p_network_key E) a0 = (0, a)) \<and>
     (\<forall>d. fst (psa_mac_compute (p_psa E) (psa_store a) (auth_key_id a) PSA_ALG_CMAC d) = 0)"

text \<open>A bus on which publishing works while nothing is waiting, and reading what is waiting.\<close>

definition bus_works ::
  "('z \<Rightarrow> ts_msg_lora_outgoing) \<Rightarrow> ('z \<Rightarrow> nat) \<Rightarrow> ('z \<Rightarrow> ts_msg_lora_incoming list) \<Rightarrow> 'z zbus_api \<Rightarrow> bool" where
  "bus_works current notified delivered B \<longleftrightarrow>
     zbus B current notified delivered \<and>
     (\<forall>m z. notified z = 0 \<longrightarrow> fst (zbus_chan_pub_out B m z) = 0) \<and>
     (\<forall>im z. fst (zbus_chan_pub_in B im z) = 0) \<and>
     (\<forall>z. 0 < notified z \<longrightarrow> fst (zbus_sub_wait B z) = 0) \<and>
     (\<forall>z. fst (zbus_chan_read_out B z) = 0)"

text \<open>A node that is idle and has not met the message with header \<open>h\<close>.\<close>

definition listening ::
  "('z \<Rightarrow> nat) \<Rightarrow> ts_route_header \<Rightarrow> ('k, 'n, 'w, 'z, 'l, 's) node \<Rightarrow> bool" where
  "listening notified h nd \<longleftrightarrow>
     node_ok nd \<and> notified (n_bus nd) = 0 \<and> size (pending (n_pool nd)) < TS_CONTENTION_POOL_SIZE \<and>
     rh_src h \<noteq> self_node_id (n_routing nd) \<and> \<not> ts_routing_is_duplicate (n_routing nd) h"

text \<open>The message after \<open>k\<close> hops, as a receiver sees it.\<close>

definition after_hops :: "uint8_t \<Rightarrow> nat \<Rightarrow> ts_msg_lora_outgoing \<Rightarrow> ts_msg_lora_outgoing" where
  "after_hops kid k m = m\<lparr>msg_route := (msg_route m)\<lparr>rh_key_id := kid, rh_ttl := rh_ttl (msg_route m) - of_nat k\<rparr>\<rparr>"

definition flooded :: "ts_msg_data \<Rightarrow> bool" where
  "flooded d \<longleftrightarrow> known_type d \<and> \<not> is_config_msg d"

lemma flooded_simps:
  assumes "flooded d"
  shows "wf_data d" "received_data d = d" "known_type d" "msg_type d \<notin> {TS_MSG_CONFIG_SET, TS_MSG_CONFIG_ACK}"
    "msg_type d \<noteq> TS_MSG_CONFIG_SET"
  using assms by (cases d; simp add: flooded_def)+

lemma listening_cong:
  "rh_src h' = rh_src h \<Longrightarrow> rh_msg_id h' = rh_msg_id h \<Longrightarrow> listening notified h' nd = listening notified h nd"
  by (simp add: listening_def ts_routing_is_duplicate_def)

lemma listening_fresh:
  assumes "listening notified h nd" "rh_src h' = rh_src h" "rh_msg_id h' = rh_msg_id h"
    and "rh_key_id h' = ts_auth_get_key_id (p_key_id E)"
  shows "fresh_for E h' nd"
  using assms by (simp add: fresh_for_def listening_def ts_routing_is_duplicate_def)

lemma provisioned_packet:
  assumes "zcbor_sized (p_zcbor E) wire room rest depth" "provisioned cmac kb E a" "flooded (msg_data m)"
  shows "\<exists>pkt. lora_out_packet E a m = Inr pkt"
proof -
  from assms(2) obtain a0 where "psa (p_psa E) cmac" "denotes_key (p_network_key E) kb" "length (network_key a0) = 16"
    "ts_auth_init (p_psa E) (p_network_key E) a0 = (0, a)"
    "\<And>d. fst (psa_mac_compute (p_psa E) (psa_store a) (auth_key_id a) PSA_ALG_CMAC d) = 0"
    by (auto simp: provisioned_def)
  from built_packet [OF assms(1) this flooded_simps(3,1) [OF assms(3)]] show ?thesis by blast
qed

section \<open>One hop\<close>

lemma hop_received:
  assumes "zcbor_sized (p_zcbor E) wire room rest depth" "p_zcbor F = p_zcbor E"
    and "provisioned cmac kb E a" "provisioned cmac kb F (n_auth nd)"
    and "flooded (msg_data m)" "lora_out_packet E a m = Inr pkt"
  shows "lora_in_packet F now (int (length pkt)) pkt rssi snr nd =
      lora_in_message F now \<lparr>in_msg = after_hops (ts_auth_get_key_id (p_key_id E)) 0 m, in_rssi = rssi, in_snr = snr\<rparr> nd"
proof -
  from assms(3) obtain a0 where e: "psa (p_psa E) cmac" "denotes_key (p_network_key E) kb"
    "length (network_key a0) = 16" "ts_auth_init (p_psa E) (p_network_key E) a0 = (0, a)"
    "\<And>d. fst (psa_mac_compute (p_psa E) (psa_store a) (auth_key_id a) PSA_ALG_CMAC d) = 0"
    by (auto simp: provisioned_def)
  from assms(4) obtain b0 where f: "psa (p_psa F) cmac" "denotes_key (p_network_key F) kb"
    "length (network_key b0) = 16" "ts_auth_init (p_psa F) (p_network_key F) b0 = (0, n_auth nd)"
    "\<And>d. fst (psa_mac_compute (p_psa F) (psa_store (n_auth nd)) (auth_key_id (n_auth nd)) PSA_ALG_CMAC d) = 0"
    by (auto simp: provisioned_def)
  from packet_understood [OF assms(1,2) e(1) f(1) e(2) f(2) e(3,4) f(3,4) e(5) f(5)
      flooded_simps(3,1) [OF assms(5)], of now rssi snr] assms(6)
  show ?thesis by (simp add: flooded_simps(2) [OF assms(5)] after_hops_def)
qed

lemma after_hops_simps [simp]:
  "rh_src (msg_route (after_hops kid k m)) = rh_src (msg_route m)"
  "rh_dst (msg_route (after_hops kid k m)) = rh_dst (msg_route m)"
  "rh_msg_id (msg_route (after_hops kid k m)) = rh_msg_id (msg_route m)"
  "rh_key_id (msg_route (after_hops kid k m)) = kid"
  "rh_ttl (msg_route (after_hops kid k m)) = rh_ttl (msg_route m) - of_nat k"
  "msg_data (after_hops kid k m) = msg_data m"
  "after_hops kid k (after_hops kid' j m) = after_hops kid (j + k) m"
  by (simp_all add: after_hops_def diff_diff_eq)

lemma broadcast_delivered:
  assumes "bus_works current notified delivered (p_zbus F)" "fresh_for F (msg_route (in_msg im)) nd"
    and "flooded (msg_data (in_msg im))" "rh_dst (msg_route (in_msg im)) = TS_ROUTING_BROADCAST_ADDR"
  shows "delivered (n_bus (lora_in_message F now im nd)) = delivered (n_bus nd) @ [im]"
proof -
  let ?p = "zbus_chan_pub_in (p_zbus F) im (n_bus nd)"
  have "zbus (p_zbus F) current notified delivered" "?p = (0, snd ?p)"
    using assms(1) by (auto simp: bus_works_def prod_eq_iff)
  from zbus.pub_in [OF this] show ?thesis
    using in_message_fresh [OF assms(2) flooded_simps(1) [OF assms(3)], of now] flooded_simps(4,5) [OF assms(3)] assms(4)
    by (simp add: Let_def ts_routing_is_for_us_def)
qed

section \<open>A path\<close>

text \<open>A node on the path, with the time and the signal readings at which it hears the packet.\<close>

record ('e, 'd, 'k, 'n, 'w, 'z, 'l, 's) station =
  st_platform :: "('e, 'd, 'k, 'n, 'w, 'z, 'l, 's) platform"
  st_node :: "('k, 'n, 'w, 'z, 'l, 's) node"
  st_now :: uint32_t
  st_rssi :: int16_t
  st_snr :: int8_t

definition hears ::
  "('e, 'd, 'k, 'n, 'w, 'z, 'l, 's) station \<Rightarrow> bytes \<Rightarrow> ('k, 'n, 'w, 'z, 'l, 's) node" where
  "hears st pkt = lora_in_packet (st_platform st) (st_now st) (int (length pkt)) pkt (st_rssi st) (st_snr st) (st_node st)"

definition passes_on :: "('e, 'd, 'k, 'n, 'w, 'z, 'l, 's) station \<Rightarrow> bytes \<Rightarrow> bytes \<Rightarrow> bool" where
  "passes_on st pkt pkt' \<longleftrightarrow> (\<exists>i < TS_CONTENTION_POOL_SIZE.
     n_radio (lora_out_iteration (st_platform st) (forward_timer (st_platform st) i (hears st pkt))) =
       snd (lora_send (p_lora (st_platform st)) pkt' (length pkt') (n_radio (st_node st))))"

text \<open>A station that can take part: same wire format, key and key id, working bus, ready for the message.\<close>

definition station_ok where
  "station_ok cmac kb Z kid current notified delivered h st \<longleftrightarrow>
     p_zcbor (st_platform st) = Z \<and> provisioned cmac kb (st_platform st) (n_auth (st_node st)) \<and>
     ts_auth_get_key_id (p_key_id (st_platform st)) = kid \<and>
     bus_works current notified delivered (p_zbus (st_platform st)) \<and> listening notified h (st_node st)"

lemma station_hears:
  assumes "zcbor_sized (p_zcbor E) wire room rest depth" "provisioned cmac kb E a"
    and "ts_auth_get_key_id (p_key_id E) = kid" "flooded (msg_data m)" "lora_out_packet E a m = Inr pkt"
    and "station_ok cmac kb (p_zcbor E) kid current notified delivered (msg_route m) st"
  shows "fresh_for (st_platform st) (msg_route (after_hops kid 0 m)) (st_node st)"
    "hears st pkt = lora_in_message (st_platform st) (st_now st)
      \<lparr>in_msg = after_hops kid 0 m, in_rssi = st_rssi st, in_snr = st_snr st\<rparr> (st_node st)"
  using assms(6) listening_fresh [of notified "msg_route m" "st_node st" "msg_route (after_hops kid 0 m)" "st_platform st"]
    hop_received [OF assms(1) _ assms(2) _ assms(4,5), of "st_platform st" "st_node st" "st_now st" "st_rssi st" "st_snr st"]
    assms(3)
  by (simp_all add: station_ok_def hears_def)

lemma station_passes_on:
  assumes "zcbor_sized (p_zcbor E) wire room rest depth" "provisioned cmac kb E a"
    and "ts_auth_get_key_id (p_key_id E) = kid" "flooded (msg_data m)" "lora_out_packet E a m = Inr pkt"
    and "station_ok cmac kb (p_zcbor E) kid current notified delivered (msg_route m) st"
    and "2 \<le> rh_ttl (msg_route m)"
    and "lora_out_packet (st_platform st) (n_auth (st_node st)) (after_hops kid 1 m) = Inr pkt'"
  shows "passes_on st pkt pkt'"
proof -
  have b: "bus_works current notified delivered (p_zbus (st_platform st))"
    and l: "listening notified (msg_route m) (st_node st)" using assms(6) by (simp_all add: station_ok_def)
  have m: "(after_hops kid 0 m)\<lparr>msg_route := (msg_route (after_hops kid 0 m))\<lparr>rh_ttl :=
      rh_ttl (msg_route (after_hops kid 0 m)) - 1\<rparr>\<rparr> = after_hops kid 1 m"
    by (simp add: after_hops_def)
  note pkt' = assms(8) [folded m]
  show ?thesis
    unfolding passes_on_def station_hears(2) [OF assms(1-6)]
    by (rule relays_fresh [where current = current and notified = notified and delivered = delivered])
      (use b l pkt' assms(7) flooded_simps [OF assms(4)] station_hears(1) [OF assms(1-6)] in
        \<open>auto simp: bus_works_def listening_def\<close>)
qed

text \<open>One station of the path: it delivers what it hears, and can put it on air again.\<close>

lemma flood_hop:
  assumes "zcbor_sized (p_zcbor E) wire room rest depth" "provisioned cmac kb E a"
    and "ts_auth_get_key_id (p_key_id E) = kid" "flooded (msg_data m)" "lora_out_packet E a m = Inr pkt"
    and "station_ok cmac kb (p_zcbor E) kid current notified delivered (msg_route m) st"
    and "rh_dst (msg_route m) = TS_ROUTING_BROADCAST_ADDR"
  shows "delivered (n_bus (hears st pkt)) = delivered (n_bus (st_node st)) @
      [\<lparr>in_msg = after_hops kid 0 m, in_rssi = st_rssi st, in_snr = st_snr st\<rparr>]"
    and "\<exists>pkt'. lora_out_packet (st_platform st) (n_auth (st_node st)) (after_hops kid 1 m) = Inr pkt' \<and>
      (2 \<le> rh_ttl (msg_route m) \<longrightarrow> passes_on st pkt pkt')"
proof -
  note hear = station_hears [OF assms(1-6)]
  show "delivered (n_bus (hears st pkt)) = delivered (n_bus (st_node st)) @
      [\<lparr>in_msg = after_hops kid 0 m, in_rssi = st_rssi st, in_snr = st_snr st\<rparr>]"
    unfolding hear(2) by (rule broadcast_delivered) (use assms(4,6,7) hear(1) in \<open>auto simp: station_ok_def\<close>)
  have "zcbor_sized (p_zcbor (st_platform st)) wire room rest depth"
    "provisioned cmac kb (st_platform st) (n_auth (st_node st))"
    using assms(1,6) by (simp_all add: station_ok_def)
  from provisioned_packet [OF this, of "after_hops kid 1 m"] assms(4) obtain pkt' where
    "lora_out_packet (st_platform st) (n_auth (st_node st)) (after_hops kid 1 m) = Inr pkt'" by auto
  with station_passes_on [OF assms(1-6)]
  show "\<exists>pkt'. lora_out_packet (st_platform st) (n_auth (st_node st)) (after_hops kid 1 m) = Inr pkt' \<and>
      (2 \<le> rh_ttl (msg_route m) \<longrightarrow> passes_on st pkt pkt')" by blast
qed

text \<open>(C3) Flooding works along every path that the hop limit admits. Take a message that is not a
  configuration message, broadcast by a node with \<open>n\<close> hops allowed, and a row of at most \<open>n\<close>
  nodes with the same key, each idle and new to the message, each hearing the one before it.
  Then every node of the row delivers the message, with the hop count reduced by its
  position, and every node but the last can put it on air again for the next one: when the
  timer of its slot has fired, the transmit task sends exactly the packet the next node
  hears.\<close>

theorem flood_reaches:
  fixes E :: "('e, 'd, 'k, 'n, 'w, 'z, 'l, 's) platform"
    and path :: "('e, 'd, 'k, 'n, 'w, 'z, 'l, 's) station list"
  assumes "zcbor_sized (p_zcbor E) wire room rest depth" and "provisioned cmac kb E a"
    and "ts_auth_get_key_id (p_key_id E) = kid" and "flooded (msg_data m)" and "lora_out_packet E a m = Inr pkt"
    and "\<forall>st \<in> set path. station_ok cmac kb (p_zcbor E) kid current notified delivered (msg_route m) st"
    and "rh_dst (msg_route m) = TS_ROUTING_BROADCAST_ADDR" and "length path \<le> unat (rh_ttl (msg_route m))"
  shows "\<exists>pkts. length pkts = length path \<and> (path \<noteq> [] \<longrightarrow> pkts ! 0 = pkt) \<and>
    (\<forall>k < length path. delivered (n_bus (hears (path ! k) (pkts ! k))) = delivered (n_bus (st_node (path ! k))) @
       [\<lparr>in_msg = after_hops kid k m, in_rssi = st_rssi (path ! k), in_snr = st_snr (path ! k)\<rparr>]) \<and>
    (\<forall>k. Suc k < length path \<longrightarrow> passes_on (path ! k) (pkts ! k) (pkts ! Suc k))"
  using assms
proof (induction path arbitrary: E a m pkt)
  case Nil
  then show ?case by (intro exI [of _ "[]"]) simp
next
  case (Cons st path)
  let ?F = "st_platform st"
  have st: "station_ok cmac kb (p_zcbor E) kid current notified delivered (msg_route m) st" using Cons.prems(6) by simp
  note hop = flood_hop [OF Cons.prems(1-5) st Cons.prems(7)]
  then obtain pkt' where pkt': "lora_out_packet ?F (n_auth (st_node st)) (after_hops kid 1 m) = Inr pkt'"
    and p: "2 \<le> rh_ttl (msg_route m) \<longrightarrow> passes_on st pkt pkt'" by blast
  have F: "zcbor_sized (p_zcbor ?F) wire room rest depth" "provisioned cmac kb ?F (n_auth (st_node st))"
    "ts_auth_get_key_id (p_key_id ?F) = kid" "p_zcbor ?F = p_zcbor E"
    using st Cons.prems(1) by (simp_all add: station_ok_def)
  show ?case
  proof (cases "path = []")
    case True
    with hop(1) show ?thesis by (intro exI [of _ "[pkt]"]) simp
  next
    case False
    then have "2 \<le> unat (rh_ttl (msg_route m))" using Cons.prems(8) by (cases path) auto
    then have t: "2 \<le> rh_ttl (msg_route m)" "unat (rh_ttl (msg_route m) - 1) = unat (rh_ttl (msg_route m)) - 1"
      by (auto simp: word_le_nat_alt unat_sub)
    have len: "length path \<le> unat (rh_ttl (msg_route m)) - Suc 0" using Cons.prems(8) by simp
    have "station_ok cmac kb (p_zcbor E) kid current notified delivered (msg_route (after_hops kid 1 m)) s"
      if "s \<in> set path" for s
      using Cons.prems(6) that listening_cong [of "msg_route (after_hops kid 1 m)" "msg_route m" notified "st_node s"]
      by (simp add: station_ok_def)
    with Cons.IH [OF F(1-3) _ pkt'] Cons.prems(4,7) len t F(4) False obtain pkts where
      "length pkts = length path" "pkts ! 0 = pkt'"
      "\<forall>k < length path. delivered (n_bus (hears (path ! k) (pkts ! k))) = delivered (n_bus (st_node (path ! k))) @
         [\<lparr>in_msg = after_hops kid (Suc k) m, in_rssi = st_rssi (path ! k), in_snr = st_snr (path ! k)\<rparr>]"
      "\<forall>k. Suc k < length path \<longrightarrow> passes_on (path ! k) (pkts ! k) (pkts ! Suc k)"
      by auto
    with hop(1) p t(1) show ?thesis
      by (intro exI [of _ "pkt # pkts"]) (auto simp: nth_Cons split: nat.split)
  qed
qed

text \<open>Three reference nodes in a row, and the reading of node 7 with three hops left.\<close>

definition ref_station :: "(bytes \<times> nat, bytes \<times> nat, ref_keys, ref_nvs, uint32_t option, ref_bus,
    (nat \<times> lora_mock_packet list) lora_mock_data, uint32_t) station" where
  "ref_station = \<lparr>st_platform = ref_platform, st_node = ref_node, st_now = 100, st_rssi = -42, st_snr = 10\<rparr>"

lemma ref_provisioned: "provisioned ref_cmac ref_key ref_platform ref_auth"
  using ref_psa.psa_axioms denotes_ref_key blank_auth_length ref_auth_init ref_mac
  by (auto simp: provisioned_def)

lemma ref_station_ok:
  "station_ok ref_cmac ref_key ref_zcbor 1 fst (\<lambda>z. fst (snd z)) (\<lambda>z. snd (snd z)) (msg_route ref_reading) ref_station"
  using ref_provisioned ref_zbus.zbus_axioms ref_zbus_works ref_node_ok
  by (simp add: station_ok_def ref_station_def bus_works_def listening_def ts_auth_get_key_id_def
      TS_CONTENTION_POOL_SIZE_def ref_not_seen)
    (simp add: ts_routing_init_def)

theorem flood_reaches_witness:
  "\<exists>pkts. passes_on ref_station (pkts ! 0) (pkts ! 1) \<and> passes_on ref_station (pkts ! 1) (pkts ! 2) \<and>
     snd (snd (n_bus (hears ref_station (pkts ! 2)))) =
       [\<lparr>in_msg = ref_reading\<lparr>msg_route := (msg_route ref_reading)\<lparr>rh_ttl := 1\<rparr>\<rparr>, in_rssi = -42, in_snr = 10\<rparr>]"
proof -
  obtain pkt where pkt: "lora_out_packet ref_platform ref_auth ref_reading = Inr pkt"
    using ref_packet [OF ref_reading_wf(1,2)] by blast
  have "flooded (msg_data ref_reading)" by (simp add: flooded_def ref_reading_def)
  from flood_reaches [of ref_platform ref_wire snd fst snd ref_cmac ref_key ref_auth 1 ref_reading pkt
      "replicate 3 ref_station" fst "\<lambda>z. fst (snd z)" "\<lambda>z. snd (snd z)"] this pkt ref_station_ok ref_provisioned
    ref_zcbor.zcbor_sized_axioms
  obtain pkts where pkts: "\<forall>k < 3. snd (snd (n_bus (hears (replicate 3 ref_station ! k) (pkts ! k)))) =
      snd (snd (n_bus (st_node (replicate 3 ref_station ! k)))) @ [\<lparr>in_msg = after_hops 1 k ref_reading,
        in_rssi = st_rssi (replicate 3 ref_station ! k), in_snr = st_snr (replicate 3 ref_station ! k)\<rparr>]"
    "\<forall>k. Suc k < 3 \<longrightarrow> passes_on (replicate 3 ref_station ! k) (pkts ! k) (pkts ! Suc k)"
    by (auto simp: ts_auth_get_key_id_def)
  have a: "after_hops 1 2 ref_reading = ref_reading\<lparr>msg_route := (msg_route ref_reading)\<lparr>rh_ttl := 1\<rparr>\<rparr>"
    by (simp add: after_hops_def ref_reading_def)
  have "passes_on ref_station (pkts ! 0) (pkts ! 1)" "passes_on ref_station (pkts ! 1) (pkts ! 2)"
    using pkts(2) [rule_format, of 0] pkts(2) [rule_format, of 1] by (simp_all add: numeral_2_eq_2)
  moreover have "snd (snd (n_bus (hears ref_station (pkts ! 2)))) = [\<lparr>in_msg = after_hops 1 2 ref_reading,
      in_rssi = -42, in_snr = 10\<rparr>]"
    using pkts(1) [rule_format, of 2] by (simp add: ref_station_def)
  ultimately show ?thesis unfolding a by blast
qed

end
