(* ===== verification/Flood.thy ===== *)
theory Flood
  imports Mesh
begin

text \<open>
  Flooding ends. A network of nodes exchanges packets over a lossy medium; the steps are the
  reception or the loss of a packet, the expiry of a delayed forward, and an iteration of a
  transmit task with a notification waiting. Each message may be relayed, each configuration
  request answered; the theory gives every packet, every waiting forward and every bus
  channel a cost such that each step lowers the sum.
\<close>

section \<open>The network\<close>

text \<open>The packet that an iteration of the transmit task hands to the radio.\<close>

definition on_air ::
  "('e, 'd, 'k, 'n, 'w, 'z, 'l, 's) platform \<Rightarrow> ('k, 'n, 'w, 'z, 'l, 's) node \<Rightarrow> bytes option" where
  "on_air E nd =
    (case zbus_sub_wait (p_zbus E) (n_bus nd) of (ret, chan, z) \<Rightarrow>
     if ret \<noteq> 0 \<or> chan \<noteq> ts_lora_out_chan then None
     else case zbus_chan_read_out (p_zbus E) z of (ret, msg, z) \<Rightarrow>
       if ret \<noteq> 0 then None
       else case lora_out_packet E (n_auth nd) msg of Inl _ \<Rightarrow> None | Inr pkt \<Rightarrow> Some pkt)"

lemma out_iteration_on_air:
  "n_radio (lora_out_iteration E nd) =
    (case on_air E nd of None \<Rightarrow> n_radio nd
     | Some pkt \<Rightarrow> snd (lora_send (p_lora E) pkt (length pkt) (n_radio nd)))"
  by (simp add: lora_out_iteration_def on_air_def Let_def split: prod.split sum.split)

text \<open>The nodes, and the packets on their way, each with its receiver.\<close>

record ('k, 'n, 'w, 'z, 'l, 's) network =
  net_nodes :: "('k, 'n, 'w, 'z, 'l, 's) node list"
  net_air :: "(nat \<times> bytes) multiset"

text \<open>\<open>E i\<close> is the platform of node \<open>i\<close>, \<open>reach i\<close> the nodes that may hear it.\<close>

inductive net_step ::
  "(nat \<Rightarrow> ('e, 'd, 'k, 'n, 'w, 'z, 'l, 's) platform) \<Rightarrow> (nat \<Rightarrow> nat list) \<Rightarrow>
   ('k, 'n, 'w, 'z, 'l, 's) network \<Rightarrow> ('k, 'n, 'w, 'z, 'l, 's) network \<Rightarrow> bool"
  for E reach where
  hear: "i < length (net_nodes s) \<Longrightarrow> net_air s = add_mset (i, pkt) A \<Longrightarrow>
    net_step E reach s (s\<lparr>net_nodes := (net_nodes s)[i :=
      lora_in_packet (E i) now (int (length pkt)) pkt rssi snr (net_nodes s ! i)], net_air := A\<rparr>)"
| lose: "net_air s = add_mset (i, pkt) A \<Longrightarrow> net_step E reach s (s\<lparr>net_air := A\<rparr>)"
| fire: "i < length (net_nodes s) \<Longrightarrow> j < TS_CONTENTION_POOL_SIZE \<Longrightarrow>
    ct_occupied (pool (n_pool (net_nodes s ! i)) ! j) \<Longrightarrow>
    net_step E reach s (s\<lparr>net_nodes := (net_nodes s)[i := forward_timer (E i) j (net_nodes s ! i)]\<rparr>)"
| send: "i < length (net_nodes s) \<Longrightarrow> fst (zbus_sub_wait (p_zbus (E i)) (n_bus (net_nodes s ! i))) = 0 \<Longrightarrow>
    net_step E reach s (s\<lparr>net_nodes := (net_nodes s)[i := lora_out_iteration (E i) (net_nodes s ! i)],
      net_air := net_air s + (case on_air (E i) (net_nodes s ! i) of None \<Rightarrow> {#}
        | Some pkt \<Rightarrow> mset (map (\<lambda>k. (k, pkt)) (reach i)))\<rparr>)"

inductive_cases net_stepE: "net_step E reach s s'"

section \<open>Costs\<close>

text \<open>
  \<open>level\<close> bounds how often a message can be handed on: an acknowledgement never, a request once
  (as its acknowledgement), any other message as often as its hop count says. A received
  message of level \<open>t + 1\<close> can lead to one forward of level \<open>t\<close>; publishing it makes at most
  two transmissions (the subscriber's queue holds two notifications), each heard by at most \<open>N\<close>
  nodes.
\<close>

definition level :: "ts_msg_lora_outgoing \<Rightarrow> nat" where
  "level m = (case msg_data m of Config_Ack _ \<Rightarrow> 0 | Config_Set _ \<Rightarrow> 1 | _ \<Rightarrow> unat (rh_ttl (msg_route m)))"

fun flood_cost :: "nat \<Rightarrow> nat \<Rightarrow> nat" where
  "flood_cost N 0 = 1"
| "flood_cost N (Suc t) = 2 + LORA_OUT_SUB_QUEUE_SIZE * (1 + N * flood_cost N t)"

definition send_cost :: "nat \<Rightarrow> ts_msg_lora_outgoing \<Rightarrow> nat" where
  "send_cost N m = 1 + N * flood_cost N (level m)"

definition pending_cost :: "nat \<Rightarrow> ts_msg_lora_outgoing \<Rightarrow> nat" where
  "pending_cost N m = 1 + LORA_OUT_SUB_QUEUE_SIZE * send_cost N m"

definition packet_cost :: "('e, 'd) zcbor_api \<Rightarrow> nat \<Rightarrow> bytes \<Rightarrow> nat" where
  "packet_cost Z N pkt =
    (case cbor_deserialize Z (Some pkt) (length pkt - TS_AUTH_TAG_SIZE) zero_msg of
       Inl _ \<Rightarrow> 1 | Inr m \<Rightarrow> flood_cost N (level m))"

definition bus_cost :: "('z \<Rightarrow> ts_msg_lora_outgoing) \<Rightarrow> ('z \<Rightarrow> nat) \<Rightarrow> nat \<Rightarrow> 'z \<Rightarrow> nat" where
  "bus_cost current notified N z = notified z * send_cost N (current z)"

definition node_cost ::
  "('z \<Rightarrow> ts_msg_lora_outgoing) \<Rightarrow> ('z \<Rightarrow> nat) \<Rightarrow> nat \<Rightarrow> ('k, 'n, 'w, 'z, 'l, 's) node \<Rightarrow> nat" where
  "node_cost current notified N nd =
    fwd.weight (pending_cost N) (n_pool nd) + bus_cost current notified N (n_bus nd)"

abbreviation air_cost :: "('e, 'd) zcbor_api \<Rightarrow> nat \<Rightarrow> (nat \<times> bytes) multiset \<Rightarrow> nat" where
  "air_cost Z N A \<equiv> sum_mset (image_mset (\<lambda>p. packet_cost Z N (snd p)) A)"

definition net_cost ::
  "('e, 'd) zcbor_api \<Rightarrow> ('z \<Rightarrow> ts_msg_lora_outgoing) \<Rightarrow> ('z \<Rightarrow> nat) \<Rightarrow> nat \<Rightarrow>
   ('k, 'n, 'w, 'z, 'l, 's) network \<Rightarrow> nat" where
  "net_cost Z current notified N s =
    sum_list (map (node_cost current notified N) (net_nodes s)) +
    air_cost Z N (net_air s)"

definition relay_ok ::
  "('z \<Rightarrow> ts_msg_lora_outgoing) \<Rightarrow> ('z \<Rightarrow> nat) \<Rightarrow> ('k, 'n, 'w, 'z, 'l, 's) node \<Rightarrow> bool" where
  "relay_ok current notified nd \<longleftrightarrow> pool_ok (n_pool nd) \<and> notified (n_bus nd) \<le> LORA_OUT_SUB_QUEUE_SIZE \<and>
     wf_data (msg_data (current (n_bus nd))) \<and> (\<forall>m \<in># pending (n_pool nd). wf_data (msg_data m))"

lemma flood_cost_pos: "0 < flood_cost N t"
  by (cases t) simp_all

lemma packet_cost_pos: "0 < packet_cost Z N pkt"
  by (simp add: packet_cost_def flood_cost_pos split: sum.split)

lemma level_received [simp]:
  "level (m\<lparr>msg_route := (msg_route m)\<lparr>rh_key_id := kid\<rparr>, msg_data := received_data (msg_data m)\<rparr>) = level m"
  by (simp add: level_def split: ts_msg_data.split)

text \<open>What a transmitted packet costs is what its message is worth.\<close>

lemma transmitted_cost:
  assumes "zcbor (p_zcbor E) wire room rest depth" "psa (p_psa E) cmac" "wf_data (msg_data m)"
    and "lora_out_packet E a m = Inr pkt"
  shows "packet_cost (p_zcbor E) N pkt = flood_cost N (level m)"
proof -
  let ?m = "m\<lparr>msg_route := (msg_route m)\<lparr>rh_key_id := ts_auth_get_key_id (p_key_id E)\<rparr>\<rparr>"
  from assms(4) obtain buf t where
    buf: "cbor_serialize (p_zcbor E) ?m 248 = Inr buf" and t: "sign_bytes (p_psa E) a buf = Inr t"
    and p: "pkt = buf @ t"
    by (auto simp: lora_out_packet_def ZBOR_ENCODE_BUFFER_SIZE_def TS_AUTH_TAG_SIZE_def Let_def
        split: sum.splits)
  have "length t = 8" by (rule psa.sign_length' [OF assms(2) t])
  with zcbor.roundtrip [OF assms(1) _ buf, of 0 t] assms(3) show ?thesis
    by (simp add: packet_cost_def p TS_AUTH_TAG_SIZE_def)
qed

section \<open>Each step of a node pays\<close>

context zbus_queue
begin

lemma publish_cost:
  assumes "notified z \<le> cap"
  shows "bus_cost current notified N (snd (zbus_chan_pub_out B m z)) \<le>
      bus_cost current notified N z + cap * send_cost N m"
    "notified (snd (zbus_chan_pub_out B m z)) \<le> cap"
    "current (snd (zbus_chan_pub_out B m z)) \<in> {m, current z}"
proof -
  let ?z = "snd (zbus_chan_pub_out B m z)"
  have *: "notified ?z \<le> cap" "current ?z = m \<or> current ?z = current z \<and> notified ?z = notified z"
    using pub_out_bounded [OF assms prod.collapse [symmetric]] by blast+
  show "notified ?z \<le> cap" "current ?z \<in> {m, current z}" using * by auto
  show "bus_cost current notified N ?z \<le> bus_cost current notified N z + cap * send_cost N m"
    using * mult_le_mono1 [OF *(1), of "send_cost N m"] by (auto simp: bus_cost_def intro: trans_le_add2)
qed

end

lemma relay_ok_sub:
  assumes "relay_ok current notified nd" "pool_ok p" "pending p \<subseteq># pending (n_pool nd) + ms"
    and "\<forall>m \<in># ms. wf_data (msg_data m)" "notified z \<le> LORA_OUT_SUB_QUEUE_SIZE" "wf_data (msg_data (current z))"
    and "n_pool nd' = p" "n_bus nd' = z"
  shows "relay_ok current notified nd'"
  using assms mset_subset_eqD [OF assms(3)] by (auto simp: relay_ok_def)

lemma fire_pays:
  assumes "zbus_queue (p_zbus E) current notified delivered LORA_OUT_SUB_QUEUE_SIZE"
    and "relay_ok current notified nd" "j < TS_CONTENTION_POOL_SIZE" "ct_occupied (pool (n_pool nd) ! j)"
  shows "relay_ok current notified (forward_timer E j nd) \<and>
    node_cost current notified N (forward_timer E j nd) < node_cost current notified N nd"
proof -
  let ?m = "ct_msg (pool (n_pool nd) ! j)" and ?p = "snd (contention_claim j (n_pool nd))"
  let ?z = "snd (zbus_chan_pub_out (p_zbus E) ?m (n_bus nd))"
  have c: "contention_claim j (n_pool nd) = (Some ?m, ?p)"
    using assms(4) by (simp add: contention_claim_def Let_def)
  have nd': "forward_timer E j nd = nd\<lparr>n_pool := ?p, n_bus := ?z\<rparr>"
    using assms(4) by (simp add: forward_timer_def ts_contention_work_handler_def contention_claim_def Let_def)
  have ok: "pool_ok (n_pool nd)" "notified (n_bus nd) \<le> LORA_OUT_SUB_QUEUE_SIZE" using assms(2) by (simp_all add: relay_ok_def)
  note pub = zbus_queue.publish_cost [OF assms(1) ok(2), where m = ?m]
  have w: "fwd.weight (pending_cost N) (n_pool nd) = pending_cost N ?m + fwd.weight (pending_cost N) ?p"
    by (rule fwd.claim_weight [OF ok(1) assms(3) c])
  have "?m \<in># pending (n_pool nd)" using assms(3,4) ok(1) by (auto simp: pending_iff pool_ok_def intro!: bexI [OF _ nth_mem])
  then have "relay_ok current notified (forward_timer E j nd)"
    using fwd.claim_ok [OF ok(1) assms(3)] fwd.claim_subset [OF ok(1) assms(3)] pub(2,3) assms(2)
    by (intro relay_ok_sub [OF assms(2), of ?p "{#}" ?z]) (auto simp: relay_ok_def nd')
  with w pub(1) [where N = N] show ?thesis by (simp add: node_cost_def nd' pending_cost_def)
qed

lemma send_pays:
  assumes "zbus_queue (p_zbus E) current notified delivered LORA_OUT_SUB_QUEUE_SIZE"
    and "relay_ok current notified nd" "fst (zbus_sub_wait (p_zbus E) (n_bus nd)) = 0"
  shows "relay_ok current notified (lora_out_iteration E nd)"
    "node_cost current notified N (lora_out_iteration E nd) + send_cost N (current (n_bus nd)) =
      node_cost current notified N nd"
    "on_air E nd = Some pkt \<Longrightarrow> lora_out_packet E (n_auth nd) (current (n_bus nd)) = Inr pkt"
proof -
  have zb: "zbus (p_zbus E) current notified delivered" using assms(1) by (simp add: zbus_queue_def)
  obtain c z1 where w: "zbus_sub_wait (p_zbus E) (n_bus nd) = (0, c, z1)" using assms(3) by (metis prod.collapse)
  obtain r m z2 where rd: "zbus_chan_read_out (p_zbus E) z1 = (r, m, z2)" using prod_cases3 by blast
  note W = zbus.sub_wait [OF zb w] and R = zbus_queue.read_out_keeps [OF assms(1) rd]
  have nd': "n_pool (lora_out_iteration E nd) = n_pool nd" "n_bus (lora_out_iteration E nd) = z2"
    using w rd W by (simp_all add: lora_out_iteration_def Let_def split: sum.split)
  show "relay_ok current notified (lora_out_iteration E nd)"
    using assms(2) W R by (auto simp: nd' relay_ok_def)
  show "node_cost current notified N (lora_out_iteration E nd) + send_cost N (current (n_bus nd)) =
      node_cost current notified N nd"
    using W R by (cases "notified (n_bus nd)") (simp_all add: nd' node_cost_def bus_cost_def)
  show "on_air E nd = Some pkt \<Longrightarrow> lora_out_packet E (n_auth nd) (current (n_bus nd)) = Inr pkt"
    using w rd W zbus.read_out [OF zb, of z1 m z2] by (auto simp: on_air_def split: if_splits sum.splits)
qed

text \<open>The acknowledgement of a request.\<close>

lemma ack_published:
  assumes "wf_key (cs_key c)"
  shows "n_pool (apply_config_set E h c nd) = n_pool nd"
    "\<exists>ack. n_bus (apply_config_set E h c nd) = snd (zbus_chan_pub_out (p_zbus E) ack (n_bus nd)) \<and>
      level ack = 0 \<and> wf_data (msg_data ack)"
proof -
  show "n_pool (apply_config_set E h c nd) = n_pool nd"
    by (simp add: apply_config_set_def Let_def split: prod.split)
  have "wf_key (cstr (cs_key c) @ replicate (TS_MSG_CONFIG_KEY_MAX - length (cstr (cs_key c))) NUL)"
    using wf_key_cstr_less [OF assms] by (simp add: wf_key_def)
  with ack_key [OF assms]
  show "\<exists>ack. n_bus (apply_config_set E h c nd) = snd (zbus_chan_pub_out (p_zbus E) ack (n_bus nd)) \<and>
      level ack = 0 \<and> wf_data (msg_data ack)"
    by (auto simp: apply_config_set_def Let_def level_def split: prod.split)
qed

lemma request_pays:
  assumes "zbus_queue (p_zbus E) current notified delivered LORA_OUT_SUB_QUEUE_SIZE"
    and "relay_ok current notified nd" "wf_key (cs_key c)"
  shows "relay_ok current notified (apply_config_set E h c nd) \<and>
    node_cost current notified N (apply_config_set E h c nd) < node_cost current notified N nd + flood_cost N 1"
proof -
  from ack_published(2) [OF assms(3), of E h nd] obtain ack where
    ack: "n_bus (apply_config_set E h c nd) = snd (zbus_chan_pub_out (p_zbus E) ack (n_bus nd))"
    "level ack = 0" "wf_data (msg_data ack)" by blast
  have ok: "notified (n_bus nd) \<le> LORA_OUT_SUB_QUEUE_SIZE" using assms(2) by (simp add: relay_ok_def)
  note pub = zbus_queue.publish_cost [OF assms(1) ok, where m = ack]
  have "relay_ok current notified (apply_config_set E h c nd)"
    using assms(2) pub(2,3) ack ack_published(1) [OF assms(3), of E h nd] by (auto simp: relay_ok_def)
  with pub(1) [where N = N] ack ack_published(1) [OF assms(3), of E h nd] show ?thesis
    by (simp add: node_cost_def send_cost_def)
qed

lemma forward_pays:
  assumes "relay_ok current notified nd" "wf_data (msg_data m)" "\<not> is_config_msg (msg_data m)"
  shows "relay_ok current notified (forward_message E m rssi nd) \<and>
    node_cost current notified N (forward_message E m rssi nd) < node_cost current notified N nd + flood_cost N (level m)"
proof (cases "2 \<le> rh_ttl (msg_route m)")
  case False
  with assms(1) show ?thesis by (simp add: relay_ok_def node_cost_def forward_pool flood_cost_pos)
next
  case True
  let ?m = "m\<lparr>msg_route := (msg_route m)\<lparr>rh_ttl := rh_ttl (msg_route m) - 1\<rparr>\<rparr>"
  let ?p = "snd (ts_contention_schedule (p_work E) (ts_config_get (n_config nd)) ?m rssi (n_pool nd))"
  have ok: "pool_ok (n_pool nd)" using assms(1) by (simp add: relay_ok_def)
  have p: "n_pool (forward_message E m rssi nd) = ?p" using True by (simp add: forward_pool)
  have l: "level m = Suc (level ?m)"
    using True assms(3) by (cases "msg_data m") (auto simp: level_def word_le_nat_alt unat_sub)
  have "fwd.weight (pending_cost N) ?p \<le> fwd.weight (pending_cost N) (n_pool nd) + pending_cost N ?m"
    by (rule fwd.sched_weight [OF ok])
  moreover have "relay_ok current notified (forward_message E m rssi nd)"
    using assms(1,2) fwd.sched_ok [OF ok] fwd.sched_subset [OF ok]
    by (intro relay_ok_sub [OF assms(1), of ?p "{#?m#}" "n_bus nd"]) (auto simp: relay_ok_def p)
  ultimately show ?thesis by (simp add: node_cost_def p l pending_cost_def send_cost_def)
qed

lemma same_relay:
  assumes "relay_ok current notified nd" "n_pool nd' = n_pool nd"
    and "current (n_bus nd') = current (n_bus nd)" "notified (n_bus nd') = notified (n_bus nd)"
  shows "relay_ok current notified nd'" "node_cost current notified N nd' = node_cost current notified N nd"
  using assms by (simp_all add: relay_ok_def node_cost_def bus_cost_def)

lemma in_message_pays:
  assumes "zbus_queue (p_zbus E) current notified delivered LORA_OUT_SUB_QUEUE_SIZE"
    and "relay_ok current notified nd" "wf_data (msg_data (in_msg im))"
  shows "relay_ok current notified (lora_in_message E now im nd) \<and>
    node_cost current notified N (lora_in_message E now im nd) <
      node_cost current notified N nd + flood_cost N (level (in_msg im))"
proof -
  let ?h = "msg_route (in_msg im)" and ?d = "msg_data (in_msg im)"
  let ?us = "ts_routing_is_for_us (n_routing nd) ?h"
  have zb: "zbus (p_zbus E) current notified delivered" using assms(1) by (simp add: zbus_queue_def)
  consider (stale) "\<not> fresh_for E ?h nd" | (request) c where "fresh_for E ?h nd" "?us" "?d = Config_Set c"
    | (other) "fresh_for E ?h nd" "\<not> (?us \<and> msg_type ?d = TS_MSG_CONFIG_SET)"
    using assms(3) by (cases ?d) auto
  then show ?thesis
  proof cases
    case stale
    let ?c = "snd (ts_contention_cancel (p_work E) (rh_src ?h) (rh_msg_id ?h) (n_pool nd))"
    from in_message_not_fresh [OF stale, of now] obtain p where
      p: "lora_in_message E now im nd = nd\<lparr>n_pool := p\<rparr>" "p = n_pool nd \<or> p = ?c" by blast
    have ok: "pool_ok (n_pool nd)" using assms(2) by (simp add: relay_ok_def)
    have "pool_ok p \<and> pending p \<subseteq># pending (n_pool nd) \<and>
        fwd.weight (pending_cost N) p \<le> fwd.weight (pending_cost N) (n_pool nd)"
      using p(2) ok fwd.cancel_ok [OF ok, of "p_work E" "msg_key (in_msg im)"]
        fwd.cancel_subset [OF ok, of "p_work E" "msg_key (in_msg im)"]
        fwd.cancel_weight [OF ok, of "pending_cost N" "p_work E" "msg_key (in_msg im)"] by (auto simp: msg_key_def)
    with relay_ok_sub [OF assms(2), of p "{#}" "n_bus nd" "nd\<lparr>n_pool := p\<rparr>"] assms(2) flood_cost_pos [of N "level (in_msg im)"]
    show ?thesis by (simp add: p(1) relay_ok_def node_cost_def)
  next
    case (request c)
    have n: "relay_ok current notified (noted now im nd)" by (rule same_relay [OF assms(2)]) (simp_all add: noted_def)
    have "node_cost current notified N (noted now im nd) = node_cost current notified N nd"
      by (rule same_relay [OF assms(2)]) (simp_all add: noted_def)
    with request_pays [OF assms(1) n, of c ?h N] request assms(3) in_message_config_set [OF request(1,3,2), of now]
    show ?thesis by (simp add: level_def)
  next
    case other
    let ?z = "if ?us then snd (zbus_chan_pub_in (p_zbus E) im (n_bus nd)) else n_bus nd"
    let ?n = "(noted now im nd)\<lparr>n_bus := ?z\<rparr>"
    have z: "current ?z = current (n_bus nd)" "notified ?z = notified (n_bus nd)"
      using zbus.pub_in [OF zb prod.collapse [symmetric], of im "n_bus nd"] by auto
    have n: "relay_ok current notified ?n" "node_cost current notified N ?n = node_cost current notified N nd"
      by (rule same_relay [OF assms(2)]; simp add: noted_def z)+
    note eq = in_message_fresh [OF other(1) assms(3) other(2), of now]
    show ?thesis
    proof (cases "is_config_msg ?d")
      case True
      with eq msg_type_config [OF assms(3)] have "lora_in_message E now im nd = ?n" by (auto simp: Let_def)
      with n flood_cost_pos [of N "level (in_msg im)"] show ?thesis by simp
    next
      case False
      with eq msg_type_config [OF assms(3)]
      have "lora_in_message E now im nd = forward_message E (in_msg im) (in_rssi im) ?n" by (auto simp: Let_def)
      with forward_pays [OF n(1) assms(3) False, of E "in_rssi im" N] n(2) show ?thesis by simp
    qed
  qed
qed

lemma hear_pays:
  assumes "zbus_queue (p_zbus E) current notified delivered LORA_OUT_SUB_QUEUE_SIZE"
    and "relay_ok current notified nd"
  shows "relay_ok current notified (lora_in_packet E now (int (length pkt)) pkt rssi snr nd) \<and>
    node_cost current notified N (lora_in_packet E now (int (length pkt)) pkt rssi snr nd) <
      node_cost current notified N nd + packet_cost (p_zcbor E) N pkt"
proof (cases "lora_in_packet E now (int (length pkt)) pkt rssi snr nd = nd")
  case True
  with assms(2) packet_cost_pos show ?thesis by simp
next
  case False
  then obtain m where m: "cbor_deserialize (p_zcbor E) (Some pkt) (length pkt - TS_AUTH_TAG_SIZE) zero_msg = Inr m"
    "lora_in_packet E now (int (length pkt)) pkt rssi snr nd =
      lora_in_message E now \<lparr>in_msg = m, in_rssi = rssi, in_snr = snr\<rparr> nd"
    by (auto simp: lora_in_packet_def Let_def split: if_splits sum.splits)
  have "wf_data (msg_data m)" using decoded_wf [OF m(1)] by (simp add: zero_msg_def)
  with in_message_pays [OF assms, of "\<lparr>in_msg = m, in_rssi = rssi, in_snr = snr\<rparr>" now N] m show ?thesis
    by (simp add: packet_cost_def)
qed

section \<open>Every step of the network pays\<close>

definition net_ok ::
  "('z \<Rightarrow> ts_msg_lora_outgoing) \<Rightarrow> ('z \<Rightarrow> nat) \<Rightarrow> ('k, 'n, 'w, 'z, 'l, 's) network \<Rightarrow> bool" where
  "net_ok current notified s \<longleftrightarrow> (\<forall>nd \<in> set (net_nodes s). relay_ok current notified nd)"

lemma update_cost:
  fixes c :: "'a \<Rightarrow> nat"
  assumes "i < length xs"
  shows "sum_list (map c (xs[i := y])) + c (xs ! i) = sum_list (map c xs) + c y"
  using assms by (induction xs arbitrary: i) (auto split: nat.split)

lemma node_pays:
  assumes "net_ok current notified s" "i < length (net_nodes s)" "relay_ok current notified nd"
    and "node_cost current notified N nd + air_cost Z N (net_air s') <
      node_cost current notified N (net_nodes s ! i) + air_cost Z N (net_air s)"
    and "net_nodes s' = (net_nodes s)[i := nd]"
  shows "net_ok current notified s' \<and> net_cost Z current notified N s' < net_cost Z current notified N s"
proof
  show "net_ok current notified s'"
    using assms(1,3,5) by (auto simp: net_ok_def dest!: set_update_subset_insert [THEN subsetD])
  show "net_cost Z current notified N s' < net_cost Z current notified N s"
    using update_cost [OF assms(2), of "node_cost current notified N" nd] assms(4,5) by (simp add: net_cost_def)
qed

text \<open>What the nodes have in common: the wire format, and backends that keep their contracts.\<close>

definition compatible where
  "compatible Z wire room rest depth cmac current notified delivered E \<longleftrightarrow>
     p_zcbor E = Z \<and> zcbor Z wire room rest depth \<and> psa (p_psa E) cmac \<and>
     zbus_queue (p_zbus E) current notified delivered LORA_OUT_SUB_QUEUE_SIZE"

lemma broadcast_cost:
  assumes "length rs \<le> N"
  shows "air_cost Z N (mset (map (\<lambda>k. (k, pkt)) rs)) \<le> N * packet_cost Z N pkt"
proof -
  have "air_cost Z N (mset (map (\<lambda>k. (k, pkt)) rs)) = length rs * packet_cost Z N pkt"
    by (induction rs) simp_all
  with assms show ?thesis by simp
qed

lemma send_air_cost:
  assumes "compatible Z wire room rest depth cmac current notified delivered E" "length rs \<le> N"
    and "relay_ok current notified nd" "fst (zbus_sub_wait (p_zbus E) (n_bus nd)) = 0"
  shows "air_cost Z N (case on_air E nd of None \<Rightarrow> {#}
      | Some pkt \<Rightarrow> mset (map (\<lambda>k. (k, pkt)) rs)) < send_cost N (current (n_bus nd))"
proof (cases "on_air E nd")
  case None
  then show ?thesis by (simp add: send_cost_def)
next
  case (Some pkt)
  have q: "zbus_queue (p_zbus E) current notified delivered LORA_OUT_SUB_QUEUE_SIZE"
    and z: "zcbor (p_zcbor E) wire room rest depth" "p_zcbor E = Z" "psa (p_psa E) cmac"
    using assms(1) by (simp_all add: compatible_def)
  have "wf_data (msg_data (current (n_bus nd)))" using assms(3) by (simp add: relay_ok_def)
  from transmitted_cost [OF z(1,3) this send_pays(3) [OF q assms(3,4) Some], of N] z(2)
    broadcast_cost [OF assms(2), of Z pkt] Some show ?thesis by (simp add: send_cost_def)
qed

lemma net_step_pays:
  assumes "\<And>i. compatible Z wire room rest depth cmac current notified delivered (E i)"
    and "\<And>i. length (reach i) \<le> N" and "net_step E reach s s'" and "net_ok current notified s"
  shows "net_ok current notified s' \<and> net_cost Z current notified N s' < net_cost Z current notified N s"
proof -
  have q: "zbus_queue (p_zbus (E i)) current notified delivered LORA_OUT_SUB_QUEUE_SIZE" "p_zcbor (E i) = Z" for i
    using assms(1) by (simp_all add: compatible_def)
  have ok: "relay_ok current notified (net_nodes s ! i)" if "i < length (net_nodes s)" for i
    using assms(4) that by (simp add: net_ok_def)
  from assms(3) show ?thesis
  proof cases
    case (hear i pkt A now rssi snr)
    with hear_pays [OF q(1) ok, of i i now pkt rssi snr N] q(2) [of i] show ?thesis
      by (intro node_pays [OF assms(4)]) auto
  next
    case (lose i pkt A)
    with assms(4) packet_cost_pos [of Z N pkt] show ?thesis by (simp add: net_cost_def net_ok_def)
  next
    case (fire i j)
    with fire_pays [OF q(1) ok, of i j i N] show ?thesis by (intro node_pays [OF assms(4)]) auto
  next
    case (send i)
    with send_pays(1) [OF q(1) ok, of i i] send_pays(2) [OF q(1) ok, of i i N]
      send_air_cost [OF assms(1,2) ok, of i i i] show ?thesis
      by (intro node_pays [OF assms(4)]) auto
  qed
qed

section \<open>Termination\<close>

definition quiet :: "('z \<Rightarrow> nat) \<Rightarrow> ('k, 'n, 'w, 'z, 'l, 's) network \<Rightarrow> bool" where
  "quiet notified s \<longleftrightarrow> net_air s = {#} \<and>
     (\<forall>nd \<in> set (net_nodes s). pending (n_pool nd) = {#} \<and> notified (n_bus nd) = 0)"

lemma stuck_quiet:
  assumes "net_ok current notified s" "\<And>i z. 0 < notified z \<Longrightarrow> fst (zbus_sub_wait (p_zbus (E i)) z) = 0"
    and "\<nexists>s'. net_step E reach s s'"
  shows "quiet notified s"
proof -
  have "net_air s = {#}" using assms(3) net_step.lose [of s _ _ _ E reach] by (metis multi_nonempty_split surj_pair)
  moreover have "pending (n_pool nd) = {#} \<and> notified (n_bus nd) = 0" if nd: "nd \<in> set (net_nodes s)" for nd
  proof -
    obtain i where i: "i < length (net_nodes s)" "nd = net_nodes s ! i" using nd by (metis in_set_conv_nth)
    have "length (pool (n_pool nd)) = TS_CONTENTION_POOL_SIZE"
      using assms(1) nd by (simp add: net_ok_def relay_ok_def pool_ok_def)
    moreover have "\<not> ct_occupied (pool (n_pool nd) ! j)" if "j < TS_CONTENTION_POOL_SIZE" for j
      using assms(3) net_step.fire [OF i(1) that, of E reach] i(2) by blast
    ultimately have "pending (n_pool nd) = {#}" by (intro unoccupied_pending) (auto simp: in_set_conv_nth)
    moreover have "notified (n_bus nd) = 0"
      using assms(3) net_step.send [OF i(1), of E reach] assms(2) [of "n_bus nd" i] i(2) by blast
    ultimately show ?thesis by simp
  qed
  ultimately show ?thesis by (simp add: quiet_def)
qed

lemma net_run_pays:
  assumes "\<And>i. compatible Z wire room rest depth cmac current notified delivered (E i)"
    and "\<And>i. length (reach i) \<le> N" and "net_ok current notified s" and "(net_step E reach ^^ n) s s'"
  shows "net_ok current notified s' \<and> n + net_cost Z current notified N s' \<le> net_cost Z current notified N s"
  using assms(4)
proof (induction n arbitrary: s')
  case 0
  with assms(3) show ?case by simp
next
  case (Suc n)
  then obtain t where "(net_step E reach ^^ n) s t" "net_step E reach t s'" by auto
  with Suc.IH [of t] net_step_pays [where E = E and reach = reach, OF assms(1,2), of t s'] show ?case by fastforce
qed

lemma net_settles:
  assumes "\<And>i. compatible Z wire room rest depth cmac current notified delivered (E i)"
    and "\<And>i. length (reach i) \<le> N" and "net_ok current notified s"
  shows "\<exists>s'. (net_step E reach)\<^sup>*\<^sup>* s s' \<and> (\<nexists>s''. net_step E reach s' s'')"
  using assms(3)
proof (induction "net_cost Z current notified N s" arbitrary: s rule: less_induct)
  case less
  show ?case
  proof (cases "\<exists>t. net_step E reach s t")
    case True
    then obtain t where t: "net_step E reach s t" by blast
    with net_step_pays [where E = E and reach = reach, OF assms(1,2) t less.prems] less.hyps [of t] show ?thesis
      by (meson converse_rtranclp_into_rtranclp)
  qed blast
qed

text \<open>(C4) Flooding ends. In a network of nodes with the same wire format, each heard by at most \<open>N\<close>
  others, over a medium that may lose packets and deliver them in any order: from any state,
  with arbitrary packets on air and messages waiting, a run without new messages has at most
  as many steps as the state costs; a run that can go no further has left nothing on air, in
  a forwarding pool or on a bus; and such a state is always reached.\<close>

theorem flood_terminates:
  assumes "\<And>i. compatible Z wire room rest depth cmac current notified delivered (E i)"
    and "\<And>i. length (reach i) \<le> N" and "net_ok current notified s"
    and "\<And>i z. 0 < notified z \<Longrightarrow> fst (zbus_sub_wait (p_zbus (E i)) z) = 0"
  shows "(\<forall>n s'. (net_step E reach ^^ n) s s' \<longrightarrow>
      n + net_cost Z current notified N s' \<le> net_cost Z current notified N s \<and>
      ((\<nexists>s''. net_step E reach s' s'') \<longrightarrow> quiet notified s')) \<and>
    (\<exists>s'. (net_step E reach)\<^sup>*\<^sup>* s s' \<and> quiet notified s')"
proof (intro conjI allI impI)
  fix n s'
  assume n: "(net_step E reach ^^ n) s s'"
  note run = net_run_pays [where E = E and reach = reach, OF assms(1-3) n]
  then show "n + net_cost Z current notified N s' \<le> net_cost Z current notified N s" by blast
  show "quiet notified s'" if "\<nexists>s''. net_step E reach s' s''"
    using stuck_quiet [where E = E, OF _ assms(4) that] run by blast
next
  from net_settles [where E = E and reach = reach, OF assms(1-3)] obtain s' where
    s': "(net_step E reach)\<^sup>*\<^sup>* s s'" "\<nexists>s''. net_step E reach s' s''" by blast
  then obtain n where "(net_step E reach ^^ n) s s'" by (meson rtranclp_imp_relpowp)
  from stuck_quiet [where E = E, OF _ assms(4) s'(2)] net_run_pays [where E = E and reach = reach, OF assms(1-3) this] s'(1)
  show "\<exists>s'. (net_step E reach)\<^sup>*\<^sup>* s s' \<and> quiet notified s'" by blast
qed

text \<open>Two reference nodes in range of each other; the reading of node 7 is on its way to the first.\<close>

definition ref_network :: "bytes \<Rightarrow> (ref_keys, ref_nvs, uint32_t option, ref_bus,
    (nat \<times> lora_mock_packet list) lora_mock_data, uint32_t) network" where
  "ref_network pkt = \<lparr>net_nodes = [ref_node, ref_node], net_air = {#(0, pkt)#}\<rparr>"

lemma ref_compatible:
  "compatible ref_zcbor ref_wire snd fst snd ref_cmac fst (\<lambda>z. fst (snd z)) (\<lambda>z. snd (snd z)) ref_platform"
  using ref_zcbor.zcbor_axioms ref_psa.psa_axioms ref_zbus.zbus_queue_axioms
  by (simp add: compatible_def LORA_OUT_SUB_QUEUE_SIZE_def)

lemma ref_network_ok:
  assumes "lora_out_packet ref_platform ref_auth ref_reading = Inr pkt"
  shows "net_ok fst (\<lambda>z. fst (snd z)) (ref_network pkt)"
    "net_cost ref_zcbor fst (\<lambda>z. fst (snd z)) 1 (ref_network pkt) = 36"
proof -
  have "pool_ok (n_pool ref_node)" using ref_node_ok(1) by (simp add: node_ok_def)
  with ref_node_ok(2) show "net_ok fst (\<lambda>z. fst (snd z)) (ref_network pkt)"
    by (simp add: net_ok_def ref_network_def relay_ok_def zero_msg_def)
  have l: "level ref_reading = 3" by (simp add: level_def ref_reading_def)
  have c: "flood_cost 1 3 = 36" by (simp add: LORA_OUT_SUB_QUEUE_SIZE_def numeral_3_eq_3)
  have "packet_cost ref_zcbor 1 pkt = 36"
    using transmitted_cost [OF _ _ ref_reading_wf(2) assms, of ref_wire snd fst snd ref_cmac 1]
      ref_zcbor.zcbor_axioms ref_psa.psa_axioms l c by simp
  moreover have "node_cost fst (\<lambda>z. fst (snd z)) 1 ref_node = 0"
    using ref_node_ok(2) by (simp add: node_cost_def bus_cost_def fwd.weight_def)
  ultimately show "net_cost ref_zcbor fst (\<lambda>z. fst (snd z)) 1 (ref_network pkt) = 36"
    by (simp add: net_cost_def ref_network_def)
qed

theorem flood_terminates_witness:
  "\<exists>pkt s'. lora_out_packet ref_platform ref_auth ref_reading = Inr pkt \<and>
     net_cost ref_zcbor fst (\<lambda>z. fst (snd z)) 1 (ref_network pkt) = 36 \<and>
     (net_step (\<lambda>_. ref_platform) (\<lambda>i. [1 - i]))\<^sup>*\<^sup>* (ref_network pkt) s' \<and> quiet (\<lambda>z. fst (snd z)) s'"
proof -
  obtain pkt where pkt: "lora_out_packet ref_platform ref_auth ref_reading = Inr pkt"
    using ref_packet [OF ref_reading_wf(1,2)] by blast
  with flood_terminates [of ref_zcbor ref_wire snd fst snd ref_cmac fst "\<lambda>z. fst (snd z)" "\<lambda>z. snd (snd z)"
      "\<lambda>_. ref_platform" "\<lambda>i. [1 - i]" 1 "ref_network pkt"] ref_compatible ref_network_ok [OF pkt] ref_zbus_works(3)
  show ?thesis by (simp del: One_nat_def)
qed

end
