(* ===== verification/Pool_Lock.thy ===== *)
theory Pool_Lock
  imports Contention
begin

text \<open>
  The forwarding pool with its mutex: the calls of \<open>src/lora/contention.c\<close> statement by
  statement, as the receive thread and the system work queue execute them. A thread locks
  \<open>pool_mutex\<close>, and blocks while the other one holds it; executes the statements of its call,
  between any two of which the other thread may run; unlocks, which hands the mutex to the
  thread that waits; the handler then publishes without the lock. Only the loops of
  \<open>find_free_slot\<close> and \<open>find_slot_by_msg\<close>, which write nothing, are one step. The work queue is a
  cooperative thread, so no other thread runs between the start of a handler and its
  \<open>k_mutex_lock\<close>. The mutex is a parameter with the contract \<open>k_mutex\<close>.
\<close>

section \<open>Threads and steps\<close>

datatype pool_thread = Rx | Wq

datatype pool_call =
    Call_Schedule ts_config ts_msg_lora_outgoing int16_t
  | Call_Cancel uint16_t uint32_t
  | Call_Init

text \<open>The statements that write to slot \<open>i\<close> of the pool.\<close>

datatype pool_stmt =
    Set_Msg nat ts_msg_lora_outgoing
  | Set_Src nat uint16_t
  | Set_Msg_Id nat uint32_t
  | Set_Occupied nat bool
  | Work_Schedule nat uint32_t
  | Work_Cancel nat
  | Work_Cancel_Sync nat
  | Work_Init nat

definition put_slot ::
  "nat \<Rightarrow> ('w ts_contention_slot \<Rightarrow> 'w ts_contention_slot) \<Rightarrow> 'w contention_state \<Rightarrow> 'w contention_state" where
  "put_slot i f st = st\<lparr>pool := (pool st)[i := f (pool st ! i)]\<rparr>"

fun run_stmt :: "'w k_work_api \<Rightarrow> pool_stmt \<Rightarrow> 'w contention_state \<Rightarrow> 'w contention_state" where
  "run_stmt K (Set_Msg i m) = put_slot i (\<lambda>s. s\<lparr>ct_msg := m\<rparr>)"
| "run_stmt K (Set_Src i n) = put_slot i (\<lambda>s. s\<lparr>ct_src := n\<rparr>)"
| "run_stmt K (Set_Msg_Id i n) = put_slot i (\<lambda>s. s\<lparr>ct_msg_id := n\<rparr>)"
| "run_stmt K (Set_Occupied i b) = put_slot i (\<lambda>s. s\<lparr>ct_occupied := b\<rparr>)"
| "run_stmt K (Work_Schedule i ms) = put_slot i (\<lambda>s. s\<lparr>ct_work := k_work_schedule K ms (ct_work s)\<rparr>)"
| "run_stmt K (Work_Cancel i) = put_slot i (\<lambda>s. s\<lparr>ct_work := k_work_cancel_delayable K (ct_work s)\<rparr>)"
| "run_stmt K (Work_Cancel_Sync i) = put_slot i (\<lambda>s. s\<lparr>ct_work := k_work_cancel_delayable_sync K (ct_work s)\<rparr>)"
| "run_stmt K (Work_Init i) = put_slot i (\<lambda>s. s\<lparr>ct_work := k_work_init_delayable K\<rparr>)"

text \<open>\<open>ts_contention_schedule\<close> from the free slot it has found to its unlock.\<close>

definition schedule_stmts :: "ts_config \<Rightarrow> ts_msg_lora_outgoing \<Rightarrow> int16_t \<Rightarrow> nat \<Rightarrow> pool_stmt list" where
  "schedule_stmts cfg p_msg rssi i =
    [Set_Msg i p_msg, Set_Src i (rh_src (msg_route p_msg)), Set_Msg_Id i (rh_msg_id (msg_route p_msg)),
     Set_Occupied i True, Work_Schedule i (ts_contention_rssi_to_delay_ms cfg rssi)]"

text \<open>Where the receive thread is: outside, blocked in \<open>k_mutex_lock\<close>, before the search for a slot, before
  \<open>k_work_cancel_delayable\<close> with the slot it has found, before the statements that are left (after
  them the unlock, or the next slot of \<open>ts_contention_init\<close>), in the loop of \<open>ts_contention_init\<close> at a slot, before \<open>k_mutex_unlock\<close>.\<close>

datatype rx_pc = Rx_Idle | Rx_Wait pool_call | Rx_In pool_call | Rx_Cancel uint16_t uint32_t nat
  | Rx_Store "pool_stmt list" "nat option" | Rx_Init nat | Rx_Out

definition store_then :: "pool_stmt list \<Rightarrow> nat option \<Rightarrow> rx_pc" where
  "store_then ops next =
    (if ops \<noteq> [] then Rx_Store ops next else case next of None \<Rightarrow> Rx_Out | Some i \<Rightarrow> Rx_Init i)"

text \<open>Where the work queue is, with the slot of the handler and the message whose delay has ended:
  no handler, blocked in \<open>k_mutex_lock\<close>, before the check of the slot, before the copy of the
  message, before the slot is freed, before \<open>k_mutex_unlock\<close> with the copy of the message if there
  is one, before \<open>zbus_chan_pub\<close>.\<close>

datatype wq_pc = Wq_Idle
  | Wq_Wait nat ts_msg_lora_outgoing
  | Wq_In nat ts_msg_lora_outgoing
  | Wq_Copy nat ts_msg_lora_outgoing
  | Wq_Free nat ts_msg_lora_outgoing ts_msg_lora_outgoing
  | Wq_Out nat ts_msg_lora_outgoing "ts_msg_lora_outgoing option"
  | Wq_Publish nat ts_msg_lora_outgoing ts_msg_lora_outgoing

record ('w, 'm) lk_state =
  lk_pool :: "'w contention_state"
  lk_mutex :: 'm
  lk_rx :: rx_pc
  lk_wq :: wq_pc
  lk_accepted :: "ts_msg_lora_outgoing multiset"
  lk_cancelled :: "ts_msg_lora_outgoing multiset"
  lk_published :: "ts_msg_lora_outgoing multiset"

fun handler_slot :: "wq_pc \<Rightarrow> nat option" where
  "handler_slot Wq_Idle = None"
| "handler_slot (Wq_Wait i g) = Some i"
| "handler_slot (Wq_In i g) = Some i"
| "handler_slot (Wq_Copy i g) = Some i"
| "handler_slot (Wq_Free i g x) = Some i"
| "handler_slot (Wq_Out i g r) = Some i"
| "handler_slot (Wq_Publish i g m) = Some i"

text \<open>The thread that has been given the mutex goes on behind its \<open>k_mutex_lock\<close>.\<close>

definition resume :: "pool_thread option \<Rightarrow> ('w, 'm) lk_state \<Rightarrow> ('w, 'm) lk_state" where
  "resume t s =
    (case t of
       Some Rx \<Rightarrow> (case lk_rx s of Rx_Wait c \<Rightarrow> s\<lparr>lk_rx := Rx_In c\<rparr> | _ \<Rightarrow> s)
     | Some Wq \<Rightarrow> (case lk_wq s of Wq_Wait i g \<Rightarrow> s\<lparr>lk_wq := Wq_In i g\<rparr> | _ \<Rightarrow> s)
     | None \<Rightarrow> s)"

text \<open>
  \<open>calls\<close> are the calls the receive thread makes. The work queue starts the handler of a slot
  whose delay has ended; \<open>k_work_cancel_delayable_sync\<close> returns when no handler of its item
  is under way. Only there, and where a thread locks or unlocks, a step looks at the mutex or
  at the other thread.
\<close>

inductive lk_step ::
  "(pool_thread, 'm) k_mutex_api \<Rightarrow> 'w k_work_api \<Rightarrow> ('w \<Rightarrow> uint32_t option) \<Rightarrow> pool_call set \<Rightarrow>
   ('w, 'm) lk_state \<Rightarrow> ('w, 'm) lk_state \<Rightarrow> bool"
  for M K waiting calls where
  rx_call: "lk_rx s = Rx_Idle \<Longrightarrow> c \<in> calls \<Longrightarrow> k_mutex_lock M Rx (lk_mutex s) = (got, m) \<Longrightarrow>
    lk_step M K waiting calls s (s\<lparr>lk_mutex := m, lk_rx := (if got then Rx_In c else Rx_Wait c)\<rparr>)"
| rx_full: "lk_rx s = Rx_In (Call_Schedule cfg m rssi) \<Longrightarrow> find_free_slot (pool (lk_pool s)) = None \<Longrightarrow>
    lk_step M K waiting calls s (s\<lparr>lk_rx := Rx_Out\<rparr>)"
| rx_schedule: "lk_rx s = Rx_In (Call_Schedule cfg m rssi) \<Longrightarrow> find_free_slot (pool (lk_pool s)) = Some i \<Longrightarrow>
    lk_step M K waiting calls s (s\<lparr>lk_rx := store_then (schedule_stmts cfg m rssi i) None,
      lk_accepted := add_mset m (lk_accepted s)\<rparr>)"
| rx_none: "lk_rx s = Rx_In (Call_Cancel src mid) \<Longrightarrow> find_slot_by_msg src mid (pool (lk_pool s)) = None \<Longrightarrow>
    lk_step M K waiting calls s (s\<lparr>lk_rx := Rx_Out\<rparr>)"
| rx_found: "lk_rx s = Rx_In (Call_Cancel src mid) \<Longrightarrow> find_slot_by_msg src mid (pool (lk_pool s)) = Some i \<Longrightarrow>
    lk_step M K waiting calls s (s\<lparr>lk_rx := Rx_Cancel src mid i\<rparr>)"
| rx_cancel: "lk_rx s = Rx_Cancel src mid i \<Longrightarrow>
    lk_step M K waiting calls s (s\<lparr>lk_pool := run_stmt K (Work_Cancel i) (lk_pool s),
      lk_rx := store_then [Set_Occupied i False] None,
      lk_cancelled := add_mset (ct_msg (pool (lk_pool s) ! i)) (lk_cancelled s)\<rparr>)"
| rx_store: "lk_rx s = Rx_Store (op # ops) next \<Longrightarrow>
    lk_step M K waiting calls s (s\<lparr>lk_pool := run_stmt K op (lk_pool s), lk_rx := store_then ops next\<rparr>)"
| rx_init: "lk_rx s = Rx_In Call_Init \<Longrightarrow> lk_step M K waiting calls s (s\<lparr>lk_rx := Rx_Init 0\<rparr>)"
| rx_init_slot: "lk_rx s = Rx_Init i \<Longrightarrow> i < TS_CONTENTION_POOL_SIZE \<Longrightarrow>
    \<not> pool_initialized (lk_pool s) \<or> handler_slot (lk_wq s) \<noteq> Some i \<Longrightarrow>
    lk_step M K waiting calls s (s\<lparr>
      lk_pool := (if pool_initialized (lk_pool s) then run_stmt K (Work_Cancel_Sync i) (lk_pool s) else lk_pool s),
      lk_rx := store_then [Work_Init i, Set_Occupied i False] (Some (Suc i))\<rparr>)"
| rx_init_done: "lk_rx s = Rx_Init TS_CONTENTION_POOL_SIZE \<Longrightarrow>
    lk_step M K waiting calls s (s\<lparr>lk_pool := (lk_pool s)\<lparr>pool_initialized := True\<rparr>, lk_rx := Rx_Out\<rparr>)"
| rx_unlock: "lk_rx s = Rx_Out \<Longrightarrow> k_mutex_unlock M Rx (lk_mutex s) = (t, m) \<Longrightarrow>
    lk_step M K waiting calls s (resume t (s\<lparr>lk_mutex := m, lk_rx := Rx_Idle\<rparr>))"
| wq_start: "lk_wq s = Wq_Idle \<Longrightarrow> i < TS_CONTENTION_POOL_SIZE \<Longrightarrow> slot = pool (lk_pool s) ! i \<Longrightarrow>
    waiting (ct_work slot) \<noteq> None \<Longrightarrow> waiting w = None \<Longrightarrow> k_mutex_lock M Wq (lk_mutex s) = (got, m) \<Longrightarrow>
    lk_step M K waiting calls s (s\<lparr>lk_pool := put_slot i (\<lambda>s. s\<lparr>ct_work := w\<rparr>) (lk_pool s),
      lk_mutex := m, lk_wq := (if got then Wq_In i (ct_msg slot) else Wq_Wait i (ct_msg slot))\<rparr>)"
| wq_check: "lk_wq s = Wq_In i g \<Longrightarrow>
    lk_step M K waiting calls s (s\<lparr>lk_wq := (if ct_occupied (pool (lk_pool s) ! i) then Wq_Copy i g else Wq_Out i g None)\<rparr>)"
| wq_copy: "lk_wq s = Wq_Copy i g \<Longrightarrow>
    lk_step M K waiting calls s (s\<lparr>lk_wq := Wq_Free i g (ct_msg (pool (lk_pool s) ! i))\<rparr>)"
| wq_free: "lk_wq s = Wq_Free i g x \<Longrightarrow>
    lk_step M K waiting calls s (s\<lparr>lk_pool := run_stmt K (Set_Occupied i False) (lk_pool s), lk_wq := Wq_Out i g (Some x)\<rparr>)"
| wq_unlock: "lk_wq s = Wq_Out i g r \<Longrightarrow> k_mutex_unlock M Wq (lk_mutex s) = (t, m) \<Longrightarrow>
    lk_step M K waiting calls s (resume t (s\<lparr>lk_mutex := m,
      lk_wq := (case r of None \<Rightarrow> Wq_Idle | Some x \<Rightarrow> Wq_Publish i g x)\<rparr>))"
| wq_publish: "lk_wq s = Wq_Publish i g x \<Longrightarrow>
    lk_step M K waiting calls s (s\<lparr>lk_wq := Wq_Idle, lk_published := add_mset x (lk_published s)\<rparr>)"

text \<open>The pool after the first \<open>ts_contention_init\<close>, both threads outside.\<close>

definition lk_start :: "(pool_thread, 'm) k_mutex_api \<Rightarrow> 'w k_work_api \<Rightarrow> 'w contention_state \<Rightarrow> ('w, 'm) lk_state" where
  "lk_start M K st = \<lparr> lk_pool = ts_contention_init K st, lk_mutex = k_mutex_free M, lk_rx = Rx_Idle, lk_wq = Wq_Idle,
     lk_accepted = {#}, lk_cancelled = {#}, lk_published = {#} \<rparr>"

section \<open>The statements of a call and the call\<close>

abbreviation run_stmts :: "'w k_work_api \<Rightarrow> pool_stmt list \<Rightarrow> 'w contention_state \<Rightarrow> 'w contention_state" where
  "run_stmts K ops st \<equiv> fold (run_stmt K) ops st"

lemma put_slot_simps [simp]:
  "length (pool (put_slot i f st)) = length (pool st)" "pool_initialized (put_slot i f st) = pool_initialized st"
  "i < length (pool st) \<Longrightarrow> pool (put_slot i f st) ! i = f (pool st ! i)"
  "i \<noteq> j \<Longrightarrow> pool (put_slot i f st) ! j = pool st ! j"
  by (simp_all add: put_slot_def)

lemma put_slot_twice: "put_slot i g (put_slot i f st) = put_slot i (\<lambda>s. g (f s)) st"
  by (cases "i < length (pool st)") (simp_all add: put_slot_def list_update_beyond)

lemma put_slot_commute: "i \<noteq> j \<Longrightarrow> put_slot i f (put_slot j g st) = put_slot j g (put_slot i f st)"
  by (simp add: put_slot_def list_update_swap)

lemma schedule_by_stmts:
  "ts_contention_schedule K cfg m rssi st =
    (case find_free_slot (pool st) of None \<Rightarrow> (-ENOMEM, st)
     | Some i \<Rightarrow> (0, run_stmts K (schedule_stmts cfg m rssi i) st))"
  by (auto simp: ts_contention_schedule_def schedule_stmts_def put_slot_twice Let_def split: option.split)
    (simp add: put_slot_def)

lemma cancel_by_stmts:
  "ts_contention_cancel K src mid st =
    (case find_slot_by_msg src mid (pool st) of None \<Rightarrow> (-ENOENT, st)
     | Some i \<Rightarrow> (0, run_stmts K [Work_Cancel i, Set_Occupied i False] st))"
  by (auto simp: ts_contention_cancel_def put_slot_twice split: option.split) (simp add: put_slot_def)

lemma claim_by_stmts:
  "contention_claim i st =
    (if ct_occupied (pool st ! i) then (Some (ct_msg (pool st ! i)), run_stmt K (Set_Occupied i False) st) else (None, st))"
  by (simp add: contention_claim_def put_slot_def Let_def)

lemma init_slot_by_stmts:
  "contention_init_slot K st i = run_stmts K
    ((if pool_initialized st then [Work_Cancel_Sync i] else []) @ [Work_Init i, Set_Occupied i False]) st"
  by (simp add: contention_init_slot_def put_slot_twice Let_def) (simp add: put_slot_def)

section \<open>Mutual exclusion and the handler's message\<close>

fun rx_holds :: "rx_pc \<Rightarrow> bool" where
  "rx_holds (Rx_In c) = True"
| "rx_holds (Rx_Cancel src mid i) = True"
| "rx_holds (Rx_Store ops next) = True"
| "rx_holds (Rx_Init i) = True"
| "rx_holds Rx_Out = True"
| "rx_holds _ = False"

fun wq_holds :: "wq_pc \<Rightarrow> bool" where
  "wq_holds (Wq_In i g) = True"
| "wq_holds (Wq_Copy i g) = True"
| "wq_holds (Wq_Free i g x) = True"
| "wq_holds (Wq_Out i g r) = True"
| "wq_holds _ = False"

fun rx_waits :: "rx_pc \<Rightarrow> bool" where
  "rx_waits (Rx_Wait c) = True"
| "rx_waits _ = False"

fun wq_waits :: "wq_pc \<Rightarrow> bool" where
  "wq_waits (Wq_Wait i g) = True"
| "wq_waits _ = False"

lemma store_then_holds [simp]: "rx_holds (store_then ops next)" "\<not> rx_waits (store_then ops next)"
  by (simp_all add: store_then_def split: option.split)

text \<open>Program counters and mutex agree.\<close>

definition lock_ok :: "('m \<Rightarrow> pool_thread option) \<Rightarrow> ('m \<Rightarrow> pool_thread set) \<Rightarrow> 'm \<Rightarrow> rx_pc \<Rightarrow> wq_pc \<Rightarrow> bool" where
  "lock_ok owner waiters m rx wq \<longleftrightarrow>
     (owner m = Some Rx \<longleftrightarrow> rx_holds rx) \<and> (owner m = Some Wq \<longleftrightarrow> wq_holds wq) \<and>
     waiters m = {t. t = Rx \<and> rx_waits rx \<or> t = Wq \<and> wq_waits wq} \<and>
     (rx_waits rx \<longrightarrow> wq_holds wq) \<and> (wq_waits wq \<longrightarrow> rx_holds rx)"

abbreviation lk_locked ::
  "('m \<Rightarrow> pool_thread option) \<Rightarrow> ('m \<Rightarrow> pool_thread set) \<Rightarrow> ('w, 'm) lk_state \<Rightarrow> bool" where
  "lk_locked owner waiters s \<equiv> lock_ok owner waiters (lk_mutex s) (lk_rx s) (lk_wq s)"

lemma lock_ok_exclusive: "lock_ok owner waiters m rx wq \<Longrightarrow> rx_holds rx \<Longrightarrow> \<not> wq_holds wq"
  unfolding lock_ok_def by (metis option.inject pool_thread.distinct(1))

lemma lock_ok_waits:
  "lock_ok owner waiters m rx wq \<Longrightarrow> wq_waits wq \<Longrightarrow> rx_holds rx"
  "lock_ok owner waiters m rx wq \<Longrightarrow> rx_waits rx \<Longrightarrow> wq_holds wq"
  by (simp_all add: lock_ok_def)

lemma lock_ok_same:
  assumes "lk_locked owner waiters s" "lk_mutex s' = lk_mutex s"
    and "rx_holds (lk_rx s') = rx_holds (lk_rx s)" "rx_waits (lk_rx s') = rx_waits (lk_rx s)"
    and "wq_holds (lk_wq s') = wq_holds (lk_wq s)" "wq_waits (lk_wq s') = wq_waits (lk_wq s)"
  shows "lk_locked owner waiters s'"
  using assms by (simp add: lock_ok_def)

lemma resume_fields [simp]:
  "lk_pool (resume t s) = lk_pool s" "lk_mutex (resume t s) = lk_mutex s"
  "lk_accepted (resume t s) = lk_accepted s" "lk_cancelled (resume t s) = lk_cancelled s"
  "lk_published (resume t s) = lk_published s"
  by (simp_all add: resume_def split: option.split pool_thread.split rx_pc.split wq_pc.split)

text \<open>A lock or unlock of one thread, seen from the program counters.\<close>

lemma lock_step_rx:
  fixes M :: "(pool_thread, 'm) k_mutex_api"
  assumes "k_mutex M owner waiters" "lock_ok owner waiters m Rx_Idle wq" "k_mutex_lock M Rx m = (got, m')"
  shows "lock_ok owner waiters m' (if got then Rx_In c else Rx_Wait c) wq"
proof (cases "wq_holds wq")
  case True
  with assms(2) have "owner m = Some Wq" "waiters m = {}" by (cases wq; auto simp: lock_ok_def)+
  with k_mutex.lock_taken [OF assms(1), of m Wq Rx] assms(2,3) True show ?thesis
    by (cases wq) (auto simp: lock_ok_def)
next
  case False
  with assms(2) have "owner m = None" "waiters m = {}"
    by (cases "owner m"; cases "the (owner m)"; auto simp: lock_ok_def)+
  with k_mutex.lock_free [OF assms(1), of m Rx] assms(2,3) False show ?thesis by (auto simp: lock_ok_def)
qed

lemma lock_step_wq:
  fixes M :: "(pool_thread, 'm) k_mutex_api"
  assumes "k_mutex M owner waiters" "lock_ok owner waiters m rx Wq_Idle" "k_mutex_lock M Wq m = (got, m')"
  shows "lock_ok owner waiters m' rx (if got then Wq_In i g else Wq_Wait i g)"
proof (cases "rx_holds rx")
  case True
  with assms(2) have "owner m = Some Rx" "waiters m = {}" by (cases rx; auto simp: lock_ok_def)+
  with k_mutex.lock_taken [OF assms(1), of m Rx Wq] assms(2,3) True show ?thesis
    by (cases rx) (auto simp: lock_ok_def)
next
  case False
  with assms(2) have "owner m = None" "waiters m = {}"
    by (cases "owner m"; cases "the (owner m)"; auto simp: lock_ok_def)+
  with k_mutex.lock_free [OF assms(1), of m Wq] assms(2,3) False show ?thesis by (auto simp: lock_ok_def)
qed

lemma unlock_step_rx:
  fixes M :: "(pool_thread, 'm) k_mutex_api"
  assumes "k_mutex M owner waiters" "lk_locked owner waiters s" "lk_rx s = Rx_Out"
    and "k_mutex_unlock M Rx (lk_mutex s) = (t, m)"
  shows "lk_locked owner waiters (resume t (s\<lparr>lk_mutex := m, lk_rx := Rx_Idle\<rparr>)) \<and>
    lk_rx (resume t (s\<lparr>lk_mutex := m, lk_rx := Rx_Idle\<rparr>)) = Rx_Idle \<and>
    lk_wq (resume t (s\<lparr>lk_mutex := m, lk_rx := Rx_Idle\<rparr>)) =
      (case lk_wq s of Wq_Wait i g \<Rightarrow> Wq_In i g | wq \<Rightarrow> wq)"
proof -
  have o: "owner (lk_mutex s) = Some Rx" using assms(2,3) by (simp add: lock_ok_def)
  show ?thesis
  proof (cases "waiters (lk_mutex s) = {}")
    case True
    with k_mutex.unlock_free [OF assms(1) o] assms show ?thesis
      by (cases "lk_wq s") (auto simp: lock_ok_def resume_def)
  next
    case False
    with k_mutex.unlock_pass [OF assms(1) o] assms show ?thesis
      by (cases "lk_wq s") (auto simp: lock_ok_def resume_def)
  qed
qed

lemma unlock_step_wq:
  fixes M :: "(pool_thread, 'm) k_mutex_api"
  assumes "k_mutex M owner waiters" "lk_locked owner waiters s" "lk_wq s = Wq_Out i g r"
    and "k_mutex_unlock M Wq (lk_mutex s) = (t, m)" "\<not> wq_holds wq" "\<not> wq_waits wq"
  shows "lk_locked owner waiters (resume t (s\<lparr>lk_mutex := m, lk_wq := wq\<rparr>)) \<and>
    lk_wq (resume t (s\<lparr>lk_mutex := m, lk_wq := wq\<rparr>)) = wq \<and>
    lk_rx (resume t (s\<lparr>lk_mutex := m, lk_wq := wq\<rparr>)) = (case lk_rx s of Rx_Wait c \<Rightarrow> Rx_In c | rx \<Rightarrow> rx)"
proof -
  have o: "owner (lk_mutex s) = Some Wq" using assms(2,3) by (simp add: lock_ok_def)
  show ?thesis
  proof (cases "waiters (lk_mutex s) = {}")
    case True
    with k_mutex.unlock_free [OF assms(1) o] assms show ?thesis
      by (cases "lk_rx s") (auto simp: lock_ok_def resume_def)
  next
    case False
    with k_mutex.unlock_pass [OF assms(1) o] assms show ?thesis
      by (cases "lk_rx s") (auto simp: lock_ok_def resume_def)
  qed
qed

lemma lk_step_locked:
  fixes M :: "(pool_thread, 'm) k_mutex_api"
  assumes "k_mutex M owner waiters" "lk_step M K waiting calls s s'" "lk_locked owner waiters s"
  shows "lk_locked owner waiters s'"
  using assms(2)
proof cases
  case (rx_call c got m)
  with lock_step_rx [OF assms(1), of "lk_mutex s" "lk_wq s" got m c] assms(3) show ?thesis by simp
next
  case (rx_unlock t m)
  from unlock_step_rx [OF assms(1,3) rx_unlock(2,3)] show ?thesis unfolding rx_unlock(1) by blast
next
  case (wq_start i slot w got m)
  with lock_step_wq [OF assms(1), of "lk_mutex s" "lk_rx s" got m i "ct_msg slot"] assms(3) show ?thesis by simp
next
  case (wq_unlock i g r t m)
  let ?wq = "case r of None \<Rightarrow> Wq_Idle | Some x \<Rightarrow> Wq_Publish i g x"
  have "\<not> wq_holds ?wq" "\<not> wq_waits ?wq" by (simp_all split: option.split)
  from unlock_step_wq [OF assms(1,3) wq_unlock(2,3) this] show ?thesis unfolding wq_unlock(1) by blast
qed (rule lock_ok_same [OF assms(3)]; simp)+

section \<open>What holds in every reachable state\<close>

text \<open>No call of \<open>ts_contention_init\<close> is under way.\<close>

fun no_init :: "rx_pc \<Rightarrow> bool" where
  "no_init (Rx_Wait c) = (c \<noteq> Call_Init)"
| "no_init (Rx_In c) = (c \<noteq> Call_Init)"
| "no_init (Rx_Store ops next) = (ops \<noteq> [] \<and> next = None)"
| "no_init (Rx_Init i) = False"
| "no_init _ = True"

lemma no_init_resume [simp]: "no_init (lk_rx (resume t s)) = no_init (lk_rx s)"
  by (cases "lk_rx s"; cases "lk_wq s") (simp_all add: resume_def split: option.split pool_thread.split)

lemma no_init_store_then [simp]: "no_init (store_then ops None)"
  by (simp add: store_then_def)

lemma lk_step_no_init:
  assumes "lk_step M K waiting calls s s'" "Call_Init \<notin> calls" "no_init (lk_rx s)"
  shows "no_init (lk_rx s')"
  using assms by (auto elim!: lk_step.cases)

text \<open>A work item waits only while its slot is taken; the handler under way finds in its slot the
  message whose delay has ended, or none.\<close>

definition work_ok :: "('w \<Rightarrow> uint32_t option) \<Rightarrow> 'w ts_contention_slot list \<Rightarrow> bool" where
  "work_ok waiting p \<longleftrightarrow> (\<forall>j < length p. waiting (ct_work (p ! j)) \<noteq> None \<longrightarrow> ct_occupied (p ! j))"

definition own_slot :: "('w \<Rightarrow> uint32_t option) \<Rightarrow> 'w ts_contention_slot list \<Rightarrow> nat \<Rightarrow> ts_msg_lora_outgoing \<Rightarrow> bool" where
  "own_slot waiting p i g \<longleftrightarrow> i < length p \<and> waiting (ct_work (p ! i)) = None \<and>
     (ct_occupied (p ! i) \<longrightarrow> ct_msg (p ! i) = g)"

fun stmt_slot :: "pool_stmt \<Rightarrow> nat" where
  "stmt_slot (Set_Msg i m) = i"
| "stmt_slot (Set_Src i n) = i"
| "stmt_slot (Set_Msg_Id i n) = i"
| "stmt_slot (Set_Occupied i b) = i"
| "stmt_slot (Work_Schedule i ms) = i"
| "stmt_slot (Work_Cancel i) = i"
| "stmt_slot (Work_Cancel_Sync i) = i"
| "stmt_slot (Work_Init i) = i"

text \<open>The last statements of \<open>ts_contention_schedule\<close> for slot \<open>i\<close>, taken or not: the timer is started at the
  very end, when the slot is taken.\<close>

fun sched_tail :: "nat \<Rightarrow> bool \<Rightarrow> pool_stmt list \<Rightarrow> bool" where
  "sched_tail i occ (Set_Msg j m # ops) = (j = i \<and> sched_tail i occ ops)"
| "sched_tail i occ (Set_Src j n # ops) = (j = i \<and> sched_tail i occ ops)"
| "sched_tail i occ (Set_Msg_Id j n # ops) = (j = i \<and> sched_tail i occ ops)"
| "sched_tail i occ (Set_Occupied j b # ops) = (j = i \<and> b \<and> sched_tail i True ops)"
| "sched_tail i occ (Work_Schedule j ms # ops) = (j = i \<and> occ \<and> ops = [])"
| "sched_tail i occ _ = False"

lemma sched_tail_slots: "sched_tail i occ ops \<Longrightarrow> op \<in> set ops \<Longrightarrow> stmt_slot op = i"
  by (induction i occ ops rule: sched_tail.induct) auto

lemma sched_tail_start: "sched_tail i occ (schedule_stmts cfg m rssi i)"
  by (simp add: schedule_stmts_def)

fun rx_ok :: "('w \<Rightarrow> uint32_t option) \<Rightarrow> 'w ts_contention_slot list \<Rightarrow> rx_pc \<Rightarrow> bool" where
  "rx_ok waiting p (Rx_Store ops next) = (\<exists>i < length p. waiting (ct_work (p ! i)) = None \<and>
     (sched_tail i (ct_occupied (p ! i)) ops \<or> ops = [Set_Occupied i False]))"
| "rx_ok waiting p (Rx_Cancel src mid i) = (find_slot_by_msg src mid p = Some i)"
| "rx_ok waiting p _ = True"

fun due_ok :: "('w \<Rightarrow> uint32_t option) \<Rightarrow> 'w ts_contention_slot list \<Rightarrow> rx_pc \<Rightarrow> wq_pc \<Rightarrow> bool" where
  "due_ok waiting p rx (Wq_Wait j g) = (own_slot waiting p j g \<and> (\<forall>c. rx = Rx_In c \<longrightarrow> ct_occupied (p ! j)) \<and>
     (\<forall>ops next. rx = Rx_Store ops next \<longrightarrow> ops = [Set_Occupied j False] \<or> (\<forall>op \<in> set ops. stmt_slot op \<noteq> j)))"
| "due_ok waiting p rx (Wq_In j g) = own_slot waiting p j g"
| "due_ok waiting p rx (Wq_Copy j g) = (own_slot waiting p j g \<and> ct_occupied (p ! j))"
| "due_ok waiting p rx (Wq_Free j g x) = (own_slot waiting p j g \<and> ct_occupied (p ! j) \<and> x = g)"
| "due_ok waiting p rx (Wq_Out j g r) = (\<forall>x. r = Some x \<longrightarrow> x = g)"
| "due_ok waiting p rx (Wq_Publish j g x) = (x = g)"
| "due_ok waiting p rx Wq_Idle = True"

definition lk_due :: "('w \<Rightarrow> uint32_t option) \<Rightarrow> ('w, 'm) lk_state \<Rightarrow> bool" where
  "lk_due waiting s \<longleftrightarrow> length (pool (lk_pool s)) = TS_CONTENTION_POOL_SIZE \<and> work_ok waiting (pool (lk_pool s)) \<and>
     rx_ok waiting (pool (lk_pool s)) (lk_rx s) \<and> due_ok waiting (pool (lk_pool s)) (lk_rx s) (lk_wq s)"

lemma rx_ok_waiting: "\<not> rx_holds rx \<Longrightarrow> rx_ok waiting p rx"
  by (cases rx) simp_all

lemma work_ok_put:
  "work_ok waiting p \<Longrightarrow> (waiting (ct_work t) \<noteq> None \<Longrightarrow> ct_occupied t) \<Longrightarrow> work_ok waiting (p[j := t])"
  by (cases "j < length p") (auto simp: work_ok_def nth_list_update)

lemma own_slot_put: "own_slot waiting p i g \<Longrightarrow> j \<noteq> i \<Longrightarrow> own_slot waiting (p[j := t]) i g"
  by (simp add: own_slot_def)

lemma pool_put_slot: "pool (put_slot i f st) = (pool st)[i := f (pool st ! i)]"
  by (simp add: put_slot_def)

text \<open>Freeing a slot whose timer is idle.\<close>

lemma free_due:
  assumes "work_ok waiting p" "i < length p" "waiting (ct_work (p ! i)) = None"
  shows "work_ok waiting (p[i := (p ! i)\<lparr>ct_occupied := False\<rparr>])"
    "own_slot waiting p j g \<Longrightarrow> own_slot waiting (p[i := (p ! i)\<lparr>ct_occupied := False\<rparr>]) j g"
  using assms by (auto simp: work_ok_def own_slot_def nth_list_update)

lemma store_due:
  assumes "lk_due waiting s" "lk_rx s = Rx_Store (op # ops) None" "\<not> wq_holds (lk_wq s)"
  shows "lk_due waiting (s\<lparr>lk_pool := run_stmt K op (lk_pool s), lk_rx := store_then ops None\<rparr>)"
proof -
  let ?p = "pool (lk_pool s)"
  from assms(1,2) obtain i where i: "i < length ?p" "waiting (ct_work (?p ! i)) = None"
    and o: "sched_tail i (ct_occupied (?p ! i)) (op # ops) \<or> op = Set_Occupied i False \<and> ops = []"
    by (auto simp: lk_due_def)
  have w: "work_ok waiting ?p" "length ?p = TS_CONTENTION_POOL_SIZE" and d: "due_ok waiting ?p (lk_rx s) (lk_wq s)"
    using assms(1) by (simp_all add: lk_due_def)
  show ?thesis
  proof (cases "op = Set_Occupied i False \<and> ops = []")
    case True
    then show ?thesis
      using w d free_due [OF w(1) i] assms(3)
      by (cases "lk_wq s") (auto simp: lk_due_def pool_put_slot store_then_def)
  next
    case False
    with o have t: "sched_tail i (ct_occupied (?p ! i)) (op # ops)" by blast
    have ne: "j \<noteq> i" if "lk_wq s = Wq_Wait j g" for j g
      using d assms(2) that sched_tail_slots [OF t, of op] False by auto
    define u where "u = pool (run_stmt K op (lk_pool s)) ! i"
    have u: "pool (run_stmt K op (lk_pool s)) = ?p[i := u]"
      using t i(1) by (cases op) (auto simp: u_def pool_put_slot)
    have k: "ops = [] \<and> ct_occupied u \<or> ops \<noteq> [] \<and> waiting (ct_work u) = None \<and> sched_tail i (ct_occupied u) ops"
      using t i by (cases op; cases ops) (auto simp: u_def)
    have "work_ok waiting (?p[i := u])" using k by (intro work_ok_put [OF w(1)]) auto
    moreover have "rx_ok waiting (?p[i := u]) (store_then ops None)" using k i(1) by (auto simp: store_then_def)
    moreover have "due_ok waiting (?p[i := u]) (store_then ops None) (lk_wq s)"
    proof (cases "lk_wq s")
      case (Wq_Wait j g)
      from ne [OF this] sched_tail_slots [OF t] d assms(2) Wq_Wait show ?thesis
        by (auto simp: store_then_def intro!: own_slot_put)
    qed (use assms(3) d in simp_all)
    ultimately show ?thesis using w by (simp add: lk_due_def u)
  qed
qed

lemma find_slot_put:
  assumes "find_slot_by_msg src mid p = Some i" "j < length p"
  shows "find_slot_by_msg src mid (p[j := (p ! j)\<lparr>ct_work := w\<rparr>]) = Some i"
  using assms unfolding find_slot_by_msg_def first_index_Some_iff by (auto simp: nth_list_update)

lemma start_due:
  assumes "lk_due waiting s" "lk_wq s = Wq_Idle" "j < TS_CONTENTION_POOL_SIZE" "slot = pool (lk_pool s) ! j"
    and "waiting (ct_work slot) \<noteq> None" "waiting w = None" "wq = Wq_In j (ct_msg slot) \<or> wq = Wq_Wait j (ct_msg slot)"
  shows "lk_due waiting (s\<lparr>lk_pool := put_slot j (\<lambda>s. s\<lparr>ct_work := w\<rparr>) (lk_pool s), lk_mutex := m, lk_wq := wq\<rparr>)"
proof -
  let ?p = "pool (lk_pool s)" and ?q = "(pool (lk_pool s))[j := (pool (lk_pool s) ! j)\<lparr>ct_work := w\<rparr>]"
  have j: "j < length ?p" "work_ok waiting ?p" "rx_ok waiting ?p (lk_rx s)" "length ?p = TS_CONTENTION_POOL_SIZE"
    using assms(1,3) by (simp_all add: lk_due_def)
  then have occ: "ct_occupied slot" using assms(4,5) by (auto simp: work_ok_def)
  have w: "work_ok waiting ?q" "own_slot waiting ?q j (ct_msg slot)"
    using j occ assms(4,6) by (auto simp: own_slot_def intro!: work_ok_put)
  have r: "rx_ok waiting ?q (lk_rx s)"
    using j(1,3) assms(4-6) find_slot_put [OF _ j(1)] by (cases "lk_rx s") (auto simp: nth_list_update)
  have "due_ok waiting ?q (lk_rx s) (Wq_Wait j (ct_msg slot))"
  proof (cases "lk_rx s")
    case (Rx_Store ops nx)
    with j(3) obtain i where i: "waiting (ct_work (?p ! i)) = None"
      "sched_tail i (ct_occupied (?p ! i)) ops \<or> ops = [Set_Occupied i False]" by auto
    then have "i \<noteq> j" using assms(4,5) by auto
    with i(2) sched_tail_slots [of i "ct_occupied (?p ! i)" ops] w(2) Rx_Store show ?thesis by auto
  qed (use w occ j(1) assms(4) in auto)
  with w r j(4) assms(7) show ?thesis by (auto simp: lk_due_def pool_put_slot)
qed

lemma cancel_due:
  assumes "k_work K waiting" "lk_due waiting s" "lk_rx s = Rx_Cancel src mid i" "\<not> wq_holds (lk_wq s)"
  shows "lk_due waiting (s\<lparr>lk_pool := run_stmt K (Work_Cancel i) (lk_pool s),
    lk_rx := store_then [Set_Occupied i False] None, lk_cancelled := c\<rparr>)"
proof -
  let ?p = "pool (lk_pool s)" and ?u = "(pool (lk_pool s) ! i)\<lparr>ct_work := k_work_cancel_delayable K (ct_work (pool (lk_pool s) ! i))\<rparr>"
  have "find_slot_by_msg src mid ?p = Some i" using assms(2,3) by (simp add: lk_due_def)
  then have i: "i < length ?p" using first_index_SomeD unfolding find_slot_by_msg_def by blast
  have idle: "waiting (ct_work ?u) = None" using k_work.cancel_idle [OF assms(1)] by simp
  have w: "work_ok waiting (?p[i := ?u])" using assms(2) idle by (intro work_ok_put) (auto simp: lk_due_def)
  have "own_slot waiting ?p j g \<Longrightarrow> own_slot waiting (?p[i := ?u]) j g" for j g
    using idle i by (auto simp: own_slot_def nth_list_update)
  then show ?thesis
    using assms(2-4) w i idle by (cases "lk_wq s") (auto simp: lk_due_def pool_put_slot store_then_def)
qed

lemma lk_step_due:
  fixes M :: "(pool_thread, 'm) k_mutex_api"
  assumes "k_mutex M owner waiters" "k_work K waiting" "lk_step M K waiting calls s s'"
    and "lk_locked owner waiters s" "no_init (lk_rx s)" "lk_due waiting s"
  shows "lk_due waiting s'"
  using assms(3)
proof cases
  case (rx_call c got m)
  with assms(6) lock_ok_waits(1) [OF assms(4)] show ?thesis by (cases "lk_wq s") (simp_all add: lk_due_def)
next
  case (rx_full cfg m rssi)
  with assms(6) show ?thesis by (cases "lk_wq s") (simp_all add: lk_due_def)
next
  case (rx_schedule cfg m rssi i)
  then have i: "i < length (pool (lk_pool s))" "\<not> ct_occupied (pool (lk_pool s) ! i)"
    using first_index_SomeD unfolding find_free_slot_def by blast+
  then have "waiting (ct_work (pool (lk_pool s) ! i)) = None" using assms(6) by (auto simp: lk_due_def work_ok_def)
  moreover have "lk_wq s = Wq_Wait j g \<Longrightarrow> j \<noteq> i" for j g using rx_schedule(2) assms(6) i by (auto simp: lk_due_def)
  moreover have "\<not> wq_holds (lk_wq s)" using lock_ok_exclusive [OF assms(4)] rx_schedule(2) by simp
  moreover have "store_then (schedule_stmts cfg m rssi i) None = Rx_Store (schedule_stmts cfg m rssi i) None"
    by (simp add: store_then_def schedule_stmts_def)
  ultimately show ?thesis
    using assms(6) i sched_tail_start sched_tail_slots [OF sched_tail_start, of _ cfg m rssi i]
    by (cases "lk_wq s") (auto simp: rx_schedule(1) lk_due_def)
next
  case (rx_none src mid)
  with assms(6) show ?thesis by (cases "lk_wq s") (simp_all add: lk_due_def)
next
  case (rx_found src mid i)
  with assms(6) show ?thesis by (cases "lk_wq s") (simp_all add: lk_due_def)
next
  case (rx_cancel src mid i)
  then have "\<not> wq_holds (lk_wq s)" using lock_ok_exclusive [OF assms(4)] by simp
  from cancel_due [OF assms(2,6) rx_cancel(2) this] show ?thesis unfolding rx_cancel(1) .
next
  case (rx_store op ops "next")
  then have "\<not> wq_holds (lk_wq s)" "next = None" using lock_ok_exclusive [OF assms(4)] assms(5) by simp_all
  with store_due [OF assms(6)] rx_store show ?thesis by simp
next
  case (rx_unlock t m)
  from unlock_step_rx [OF assms(1,4) rx_unlock(2,3)] assms(6) show ?thesis
    unfolding rx_unlock(1) by (cases "lk_wq s") (auto simp: lk_due_def)
next
  case (wq_start i slot w got m)
  from start_due [OF assms(6) wq_start(2-6)] show ?thesis unfolding wq_start(1) by simp
next
  case (wq_check i g)
  with assms(6) show ?thesis by (simp add: lk_due_def)
next
  case (wq_copy i g)
  with assms(6) show ?thesis by (simp add: lk_due_def own_slot_def)
next
  case (wq_free i g x)
  then have "\<not> rx_holds (lk_rx s)" using lock_ok_exclusive [OF assms(4)] by auto
  with rx_ok_waiting wq_free free_due(1) [of waiting "pool (lk_pool s)" i] assms(6) show ?thesis
    by (simp add: lk_due_def own_slot_def pool_put_slot)
next
  case (wq_unlock i g r t m)
  let ?wq = "case r of None \<Rightarrow> Wq_Idle | Some x \<Rightarrow> Wq_Publish i g x"
  have "\<not> wq_holds ?wq" "\<not> wq_waits ?wq" by (simp_all split: option.split)
  from unlock_step_wq [OF assms(1,4) wq_unlock(2,3) this] assms(6) wq_unlock(2) show ?thesis
    unfolding wq_unlock(1) by (cases r; cases "lk_rx s") (auto simp: lk_due_def)
next
  case (wq_publish i g x)
  with assms(6) show ?thesis by (simp add: lk_due_def)
qed (use assms(5) in auto)

lemma lk_start_ok:
  assumes "k_mutex M owner waiters" "k_work K waiting" "length (pool st) = TS_CONTENTION_POOL_SIZE"
  shows "lk_locked owner waiters (lk_start M K st)" "lk_due waiting (lk_start M K st)"
  using k_mutex.free [OF assms(1)] k_work.init_idle [OF assms(2)] init_pool [OF assms(3), of K] assms(3)
  by (simp_all add: lk_start_def lock_ok_def lk_due_def work_ok_def)

lemma lk_run_ok:
  fixes M :: "(pool_thread, 'm) k_mutex_api"
  assumes "k_mutex M owner waiters" "k_work K waiting" "length (pool st) = TS_CONTENTION_POOL_SIZE"
    and "Call_Init \<notin> calls" "(lk_step M K waiting calls)\<^sup>*\<^sup>* (lk_start M K st) s"
  shows "lk_locked owner waiters s \<and> no_init (lk_rx s) \<and> lk_due waiting s"
  using assms(5)
proof induction
  case base
  show ?case using lk_start_ok [OF assms(1-3)] by (simp add: lk_start_def)
next
  case (step t u)
  then show ?case
    using lk_step_locked [OF assms(1) step.hyps(2)] lk_step_no_init [OF step.hyps(2) assms(4)]
      lk_step_due [OF assms(1,2) step.hyps(2)] by blast
qed

section \<open>The locked calls are atomic\<close>

text \<open>
  The state of the atomic model: the pool as the statements that are left of the call under way
  will leave it, which handlers have started and not freed their slot, which messages are
  copied and not published. A schedule takes effect when it has found its slot, a cancel when
  it stops the timer, a handler when it frees the slot or finds it free.
\<close>

fun pool_after :: "'w k_work_api \<Rightarrow> rx_pc \<Rightarrow> 'w contention_state \<Rightarrow> 'w contention_state" where
  "pool_after K (Rx_Store ops next) st = run_stmts K ops st"
| "pool_after K _ st = st"

fun wq_jobs :: "wq_pc \<Rightarrow> nat multiset" where
  "wq_jobs (Wq_Wait i g) = {#i#}"
| "wq_jobs (Wq_In i g) = {#i#}"
| "wq_jobs (Wq_Copy i g) = {#i#}"
| "wq_jobs (Wq_Free i g x) = {#i#}"
| "wq_jobs _ = {#}"

fun wq_inflight :: "wq_pc \<Rightarrow> ts_msg_lora_outgoing multiset" where
  "wq_inflight (Wq_Out i g (Some x)) = {#x#}"
| "wq_inflight (Wq_Publish i g x) = {#x#}"
| "wq_inflight _ = {#}"

definition lk_abs :: "'w k_work_api \<Rightarrow> ('w, 'm) lk_state \<Rightarrow> 'w fw_state" where
  "lk_abs K s = \<lparr> fw_pool = pool_after K (lk_rx s) (lk_pool s), fw_jobs = wq_jobs (lk_wq s),
     fw_inflight = wq_inflight (lk_wq s),
     fw_accepted = lk_accepted s, fw_cancelled = lk_cancelled s, fw_published = lk_published s \<rparr>"

lemma lk_abs_resume [simp]:
  "wq_jobs (lk_wq (resume t s)) = wq_jobs (lk_wq s)" "wq_inflight (lk_wq (resume t s)) = wq_inflight (lk_wq s)"
  by (cases "lk_wq s"; cases "lk_rx s"; simp add: resume_def split: option.split pool_thread.split)+

lemma pool_after_resume [simp]: "pool_after K (lk_rx (resume t s)) st = pool_after K (lk_rx s) st"
  by (cases "lk_rx s"; cases "lk_wq s"; simp add: resume_def split: option.split pool_thread.split)

lemma pool_after_waiting: "\<not> rx_holds rx \<Longrightarrow> pool_after K rx st = st"
  by (cases rx) simp_all

lemma pool_after_store_then [simp]: "pool_after K (store_then ops next) st = run_stmts K ops st"
  by (simp add: store_then_def split: option.split)

text \<open>The statements of a call on one slot and an expiry at another one.\<close>

lemma run_stmt_other:
  "stmt_slot op \<noteq> j \<Longrightarrow> run_stmt K op (put_slot j f st) = put_slot j f (run_stmt K op st) \<and>
   pool (run_stmt K op st) ! j = pool st ! j"
  by (cases op) (simp_all add: put_slot_commute)

lemma run_stmts_other:
  "\<forall>op \<in> set ops. stmt_slot op \<noteq> j \<Longrightarrow> run_stmts K ops (put_slot j f st) = put_slot j f (run_stmts K ops st) \<and>
   pool (run_stmts K ops st) ! j = pool st ! j"
  by (induction ops arbitrary: st) (simp_all add: run_stmt_other)

lemma pool_after_expire:
  assumes "lk_due waiting s" "waiting (ct_work (pool (lk_pool s) ! j)) \<noteq> None"
  shows "pool_after K (lk_rx s) (put_slot j f (lk_pool s)) = put_slot j f (pool_after K (lk_rx s) (lk_pool s)) \<and>
    pool (pool_after K (lk_rx s) (lk_pool s)) ! j = pool (lk_pool s) ! j"
proof (cases "lk_rx s")
  case (Rx_Store ops nx)
  with assms(1) obtain i where i: "waiting (ct_work (pool (lk_pool s) ! i)) = None"
    "sched_tail i (ct_occupied (pool (lk_pool s) ! i)) ops \<or> ops = [Set_Occupied i False]" by (auto simp: lk_due_def)
  with assms(2) have "i \<noteq> j" by auto
  with i(2) sched_tail_slots have "\<forall>op \<in> set ops. stmt_slot op \<noteq> j" by fastforce
  from run_stmts_other [OF this] show ?thesis by (simp add: Rx_Store)
qed simp_all

lemma cancelled_one:
  assumes "find_slot_by_msg src mid (pool st) = Some i" "ts_contention_cancel K src mid st = (ret, p)"
  shows "pending st - pending p = {#ct_msg (pool st ! i)#}"
proof -
  let ?s = "(pool st ! i)\<lparr>ct_work := k_work_cancel_delayable K (ct_work (pool st ! i)), ct_occupied := False\<rparr>"
  have i: "i < length (pool st)" "ct_occupied (pool st ! i)"
    using first_index_SomeD [OF assms(1) [unfolded find_slot_by_msg_def]] by simp_all
  have "p = st\<lparr>pool := (pool st)[i := ?s]\<rparr>" using assms by (simp add: ts_contention_cancel_def)
  with pending_put [OF i(1), of ?s] i(2) have "pending st = add_mset (ct_msg (pool st ! i)) (pending p)"
    by (simp add: occ_msg_def)
  then show ?thesis by simp
qed

lemma lk_step_abs:
  fixes M :: "(pool_thread, 'm) k_mutex_api"
  assumes "lk_step M K waiting calls s s'" "no_init (lk_rx s)" "lk_locked owner waiters s" "lk_due waiting s"
  shows "lk_abs K s' = lk_abs K s \<or> fw_step K waiting (lk_abs K s) (lk_abs K s')"
  using assms(1)
proof cases
  case (rx_schedule cfg m rssi i)
  then have "ts_contention_schedule K cfg m rssi (lk_pool s) = (0, run_stmts K (schedule_stmts cfg m rssi i) (lk_pool s))"
    by (simp add: schedule_by_stmts)
  with fw_step.schedule [of K cfg m rssi "lk_abs K s" 0 _ waiting] rx_schedule show ?thesis by (simp add: lk_abs_def)
next
  case (rx_cancel src mid i)
  then have f: "find_slot_by_msg src mid (pool (lk_pool s)) = Some i" using assms(4) by (simp add: lk_due_def)
  have c: "ts_contention_cancel K src mid (lk_pool s) = (0, run_stmts K [Work_Cancel i, Set_Occupied i False] (lk_pool s))"
    by (simp add: cancel_by_stmts f)
  from fw_step.cancel [of K src mid "lk_abs K s" 0 _ waiting] c cancelled_one [OF f c] rx_cancel show ?thesis
    by (simp add: lk_abs_def)
next
  case (rx_store op ops nx)
  then show ?thesis using assms(2) by (simp add: lk_abs_def)
next
  case (wq_start i slot w got m)
  have e: "pool_after K (lk_rx s) (put_slot i f (lk_pool s)) = put_slot i f (pool_after K (lk_rx s) (lk_pool s))"
    "pool (pool_after K (lk_rx s) (lk_pool s)) ! i = slot" for f
    using pool_after_expire [OF assms(4)] wq_start(4,5) by blast+
  with fw_step.expire [of i slot "lk_abs K s" waiting w K] wq_start show ?thesis
    by (simp add: lk_abs_def) (simp add: put_slot_def)
next
  case (wq_check i g)
  show ?thesis
  proof (cases "ct_occupied (pool (lk_pool s) ! i)")
    case False
    have "pool_after K (lk_rx s) (lk_pool s) = lk_pool s"
      using pool_after_waiting lock_ok_exclusive [OF assms(3)] wq_check(2) by fastforce
    moreover have "contention_claim i (lk_pool s) = (None, lk_pool s)" using False by (simp add: claim_by_stmts [where K = K])
    ultimately show ?thesis
      using fw_step.claim [of "lk_abs K s" i "{#}" None "lk_pool s" K waiting] False wq_check
      by (simp add: lk_abs_def)
  qed (use wq_check in \<open>simp add: lk_abs_def\<close>)
next
  case (wq_free i g x)
  have "\<not> rx_holds (lk_rx s)" using lock_ok_exclusive [OF assms(3)] wq_free(2) by fastforce
  then have p: "pool_after K (lk_rx s) st = st" for st using pool_after_waiting by blast
  have "ct_occupied (pool (lk_pool s) ! i)" "ct_msg (pool (lk_pool s) ! i) = x"
    using assms(4) wq_free(2) by (simp_all add: lk_due_def own_slot_def)
  with fw_step.claim [of "lk_abs K s" i "{#}" "Some x" "run_stmt K (Set_Occupied i False) (lk_pool s)" K waiting] p wq_free
  show ?thesis by (simp add: lk_abs_def claim_by_stmts [where K = K])
next
  case (wq_unlock i g r t m)
  then show ?thesis by (cases r) (simp_all add: lk_abs_def)
next
  case (wq_publish i g x)
  with fw_step.publish [of "lk_abs K s" x "{#}" K waiting] show ?thesis by (simp add: lk_abs_def)
qed (use assms(2) in \<open>auto simp: lk_abs_def\<close>)

lemma lk_start_abs: "lk_abs K (lk_start M K st) = fw_init K st"
  by (simp add: lk_abs_def lk_start_def fw_init_def)

lemma lk_run_abs:
  fixes M :: "(pool_thread, 'm) k_mutex_api"
  assumes "k_mutex M owner waiters" "k_work K waiting" "length (pool st) = TS_CONTENTION_POOL_SIZE"
    and "Call_Init \<notin> calls" "(lk_step M K waiting calls)\<^sup>*\<^sup>* (lk_start M K st) s"
  shows "(fw_step K waiting)\<^sup>*\<^sup>* (fw_init K st) (lk_abs K s)"
  using assms(5)
proof induction
  case base
  show ?case by (simp add: lk_start_abs)
next
  case (step t u)
  from lk_step_abs [OF step.hyps(2)] lk_run_ok [OF assms(1-4) step.hyps(1)] step.IH show ?case
    by (metis rtranclp.rtrancl_into_rtrancl)
qed

section \<open>Every call returns\<close>

fun rx_left :: "rx_pc \<Rightarrow> nat" where
  "rx_left (Rx_Wait c) = 8" | "rx_left (Rx_In c) = 7" | "rx_left (Rx_Cancel src mid i) = 3"
| "rx_left (Rx_Store ops next) = Suc (length ops)" | "rx_left Rx_Out = 1" | "rx_left _ = 0"

fun wq_left :: "wq_pc \<Rightarrow> nat" where
  "wq_left (Wq_Wait i g) = 6" | "wq_left (Wq_In i g) = 5" | "wq_left (Wq_Copy i g) = 4"
| "wq_left (Wq_Free i g x) = 3" | "wq_left (Wq_Out i g r) = 2"
| "wq_left (Wq_Publish i g x) = 1" | "wq_left Wq_Idle = 0"

lemma rx_left_store_then [simp]: "rx_left (store_then ops None) = Suc (length ops)"
  by (simp add: store_then_def)

lemma lk_progress:
  fixes M :: "(pool_thread, 'm) k_mutex_api"
  assumes "k_mutex M owner waiters" "lk_locked owner waiters s" "no_init (lk_rx s)"
    and "lk_rx s \<noteq> Rx_Idle \<or> lk_wq s \<noteq> Wq_Idle"
  shows "\<exists>s'. lk_step M K waiting calls s s' \<and>
    rx_left (lk_rx s') + wq_left (lk_wq s') < rx_left (lk_rx s) + wq_left (lk_wq s)"
proof (cases "rx_holds (lk_rx s)")
  case True
  show ?thesis
  proof (cases "lk_rx s")
    case (Rx_In c)
    show ?thesis
    proof (cases c)
      case (Call_Schedule cfg m rssi)
      show ?thesis
      proof (cases "find_free_slot (pool (lk_pool s))")
        case None
        with lk_step.rx_full [where s = s] Rx_In Call_Schedule show ?thesis by fastforce
      next
        case (Some i)
        have "lk_step M K waiting calls s (s\<lparr>lk_rx := store_then (schedule_stmts cfg m rssi i) None,
            lk_accepted := add_mset m (lk_accepted s)\<rparr>)"
          by (rule lk_step.rx_schedule) (simp_all add: Rx_In Call_Schedule Some)
        with Rx_In show ?thesis by (intro exI conjI) (assumption, simp add: schedule_stmts_def)
      qed
    next
      case (Call_Cancel src mid)
      show ?thesis
      proof (cases "find_slot_by_msg src mid (pool (lk_pool s))")
        case None
        with lk_step.rx_none [where s = s] Rx_In Call_Cancel show ?thesis by fastforce
      next
        case (Some i)
        have "lk_step M K waiting calls s (s\<lparr>lk_rx := Rx_Cancel src mid i\<rparr>)"
          by (rule lk_step.rx_found) (simp_all add: Rx_In Call_Cancel Some)
        with Rx_In show ?thesis by (intro exI conjI) (assumption, simp)
      qed
    next
      case Call_Init
      with assms(3) Rx_In show ?thesis by simp
    qed
  next
    case (Rx_Cancel src mid i)
    from lk_step.rx_cancel [OF this] Rx_Cancel show ?thesis by (intro exI conjI) (assumption, simp)
  next
    case (Rx_Store ops nx)
    with assms(3) obtain op ops' where r: "lk_rx s = Rx_Store (op # ops') None" by (cases ops) auto
    from lk_step.rx_store [OF r] r show ?thesis by (intro exI conjI) (assumption, simp)
  next
    case Rx_Out
    obtain t m where u: "k_mutex_unlock M Rx (lk_mutex s) = (t, m)" by fastforce
    from unlock_step_rx [OF assms(1,2) Rx_Out u] Rx_Out show ?thesis
      by (intro exI [of _ "resume t (s\<lparr>lk_mutex := m, lk_rx := Rx_Idle\<rparr>)"] conjI lk_step.rx_unlock [OF Rx_Out u])
        (cases "lk_wq s"; simp)
  qed (use True assms(3) in auto)
next
  case rx: False
  show ?thesis
  proof (cases "lk_wq s")
    case (Wq_In i g)
    with lk_step.wq_check [where s = s] show ?thesis by fastforce
  next
    case (Wq_Copy i g)
    with lk_step.wq_copy [where s = s] show ?thesis by fastforce
  next
    case (Wq_Free i g x)
    with lk_step.wq_free [where s = s] show ?thesis by fastforce
  next
    case (Wq_Out i g r)
    let ?wq = "case r of None \<Rightarrow> Wq_Idle | Some x \<Rightarrow> Wq_Publish i g x"
    have wq: "\<not> wq_holds ?wq" "\<not> wq_waits ?wq" "wq_left ?wq \<le> 1" by (simp_all split: option.split)
    obtain t m where u: "k_mutex_unlock M Wq (lk_mutex s) = (t, m)" by fastforce
    from unlock_step_wq [OF assms(1,2) Wq_Out u wq(1,2)] Wq_Out wq(3) show ?thesis
      by (intro exI [of _ "resume t (s\<lparr>lk_mutex := m, lk_wq := ?wq\<rparr>)"] conjI lk_step.wq_unlock [OF Wq_Out u])
        (cases "lk_rx s"; simp)
  next
    case (Wq_Publish i g x)
    with lk_step.wq_publish [where s = s] show ?thesis by fastforce
  next
    case (Wq_Wait i g)
    with rx lock_ok_waits(1) [OF assms(2)] show ?thesis by simp
  next
    case Wq_Idle
    with rx assms(4) lock_ok_waits(2) [OF assms(2)] show ?thesis by (cases "lk_rx s") simp_all
  qed
qed

lemma lk_settles:
  fixes M :: "(pool_thread, 'm) k_mutex_api"
  assumes "k_mutex M owner waiters" "Call_Init \<notin> calls" "lk_locked owner waiters s" "no_init (lk_rx s)"
  shows "\<exists>s'. (lk_step M K waiting calls)\<^sup>*\<^sup>* s s' \<and> lk_rx s' = Rx_Idle \<and> lk_wq s' = Wq_Idle"
  using assms(3,4)
proof (induction "rx_left (lk_rx s) + wq_left (lk_wq s)" arbitrary: s rule: less_induct)
  case less
  show ?case
  proof (cases "lk_rx s = Rx_Idle \<and> lk_wq s = Wq_Idle")
    case False
    with lk_progress [OF assms(1) less.prems] obtain t where t: "lk_step M K waiting calls s t"
      "rx_left (lk_rx t) + wq_left (lk_wq t) < rx_left (lk_rx s) + wq_left (lk_wq s)" by blast
    from less.hyps [OF t(2) lk_step_locked [OF assms(1) t(1) less.prems(1)]
        lk_step_no_init [OF t(1) assms(2) less.prems(2)]] t(1) show ?thesis
      by (meson converse_rtranclp_into_rtranclp)
  qed blast
qed

section \<open>The theorems\<close>

text \<open>One scheduled forward, up to the unlock.\<close>

lemma first_scheduled:
  assumes "length (pool st) = TS_CONTENTION_POOL_SIZE"
  shows "\<exists>p. ts_contention_schedule K cfg x rssi (ts_contention_init K st) = (0, p) \<and>
    length (pool p) = TS_CONTENTION_POOL_SIZE \<and> pool_initialized p \<and> ct_msg (pool p ! 0) = x \<and>
    ct_occupied (pool p ! 0) \<and> find_slot_by_msg (rh_src (msg_route x)) (rh_msg_id (msg_route x)) (pool p) = Some 0 \<and>
    ct_work (pool p ! 0) = k_work_schedule K (ts_contention_rssi_to_delay_ms cfg rssi) (k_work_init_delayable K)"
proof -
  have "0 < length (pool st)" using assms by (simp add: TS_CONTENTION_POOL_SIZE_def)
  then obtain s0 ss where c: "pool st = s0 # ss" by (cases "pool st") auto
  have "find_free_slot (pool (ts_contention_init K st)) = Some 0"
    unfolding init_pool [OF assms] c by (simp add: find_free_slot_def)
  then show ?thesis
    using assms by (simp add: ts_contention_schedule_def init_pool Let_def c find_slot_by_msg_def)
      (simp add: ts_contention_init_def)
qed

lemma store_run:
  assumes "lk_rx s = store_then ops None"
  shows "(lk_step M K waiting calls)\<^sup>*\<^sup>* s (s\<lparr>lk_pool := run_stmts K ops (lk_pool s), lk_rx := Rx_Out\<rparr>)"
  using assms
proof (induction ops arbitrary: s)
  case Nil
  then have "s\<lparr>lk_pool := run_stmts K [] (lk_pool s), lk_rx := Rx_Out\<rparr> = s" by (simp add: store_then_def)
  then show ?case by simp
next
  case (Cons op ops)
  then have r: "lk_rx s = Rx_Store (op # ops) None" by (simp add: store_then_def)
  let ?t = "s\<lparr>lk_pool := run_stmt K op (lk_pool s), lk_rx := store_then ops None\<rparr>"
  have "lk_step M K waiting calls s ?t" by (rule lk_step.rx_store [OF r])
  moreover have "(lk_step M K waiting calls)\<^sup>*\<^sup>* ?t (s\<lparr>lk_pool := run_stmts K (op # ops) (lk_pool s), lk_rx := Rx_Out\<rparr>)"
    using Cons.IH [of ?t] by simp
  ultimately show ?case by (rule converse_rtranclp_into_rtranclp)
qed

lemma schedule_runs:
  fixes M :: "(pool_thread, 'm) k_mutex_api"
  assumes "k_mutex_lock M Rx (k_mutex_free M) = (True, m1)" "k_mutex_unlock M Rx m1 = (None, m2)"
    and "length (pool st) = TS_CONTENTION_POOL_SIZE" "Call_Schedule cfg x rssi \<in> calls"
  shows "\<exists>p. (lk_step M K waiting calls)\<^sup>*\<^sup>* (lk_start M K st)
      ((lk_start M K st)\<lparr>lk_pool := p, lk_mutex := m2, lk_accepted := {#x#}\<rparr>) \<and>
    length (pool p) = TS_CONTENTION_POOL_SIZE \<and> pool_initialized p \<and> ct_msg (pool p ! 0) = x \<and> ct_occupied (pool p ! 0) \<and>
    find_slot_by_msg (rh_src (msg_route x)) (rh_msg_id (msg_route x)) (pool p) = Some 0 \<and>
    ct_work (pool p ! 0) = k_work_schedule K (ts_contention_rssi_to_delay_ms cfg rssi) (k_work_init_delayable K)"
proof -
  let ?s0 = "lk_start M K st" and ?step = "lk_step M K waiting calls"
  from first_scheduled [OF assms(3), of K cfg x rssi] obtain p where
    p: "ts_contention_schedule K cfg x rssi (lk_pool ?s0) = (0, p)"
    and q: "length (pool p) = TS_CONTENTION_POOL_SIZE \<and> pool_initialized p \<and> ct_msg (pool p ! 0) = x \<and>
      ct_occupied (pool p ! 0) \<and> find_slot_by_msg (rh_src (msg_route x)) (rh_msg_id (msg_route x)) (pool p) = Some 0 \<and>
      ct_work (pool p ! 0) = k_work_schedule K (ts_contention_rssi_to_delay_ms cfg rssi) (k_work_init_delayable K)"
    by (auto simp: lk_start_def)
  then obtain i where i: "find_free_slot (pool (lk_pool ?s0)) = Some i"
    "run_stmts K (schedule_stmts cfg x rssi i) (lk_pool ?s0) = p"
    by (auto simp: schedule_by_stmts split: option.splits)
  let ?s1 = "?s0\<lparr>lk_mutex := m1, lk_rx := Rx_In (Call_Schedule cfg x rssi)\<rparr>"
  let ?s2 = "?s1\<lparr>lk_rx := store_then (schedule_stmts cfg x rssi i) None, lk_accepted := {#x#}\<rparr>"
  let ?s3 = "?s2\<lparr>lk_pool := p, lk_rx := Rx_Out\<rparr>"
  have "?step ?s0 ?s1"
    using lk_step.rx_call [of ?s0 _ calls M True m1 K waiting] assms(1,4) by (simp add: lk_start_def)
  moreover have "?step ?s1 ?s2"
    using lk_step.rx_schedule [of ?s1 cfg x rssi i M K waiting calls] i(1) by (simp add: lk_start_def)
  moreover have "?step\<^sup>*\<^sup>* ?s2 ?s3"
    using store_run [of ?s2 "schedule_stmts cfg x rssi i" M K waiting calls] i(2) by simp
  moreover have "?step ?s3 (?s0\<lparr>lk_pool := p, lk_mutex := m2, lk_accepted := {#x#}\<rparr>)"
    using lk_step.rx_unlock [of ?s3 M None m2 K waiting calls] assms(2) by (simp add: lk_start_def resume_def)
  ultimately have "?step\<^sup>*\<^sup>* ?s0 (?s0\<lparr>lk_pool := p, lk_mutex := m2, lk_accepted := {#x#}\<rparr>)"
    by (meson converse_rtranclp_into_rtranclp r_into_rtranclp rtranclp_trans)
  with q show ?thesis by blast
qed

lemma start_mutex:
  assumes "k_mutex M owner waiters"
  obtains m1 m2 where "k_mutex_lock M Rx (k_mutex_free M) = (True, m1)" "k_mutex_unlock M Rx m1 = (None, m2)"
    "owner m2 = None" "waiters m2 = {}"
proof -
  from k_mutex.free [OF assms] k_mutex.lock_free [OF assms, of "k_mutex_free M" Rx] obtain m1 where
    m1: "k_mutex_lock M Rx (k_mutex_free M) = (True, m1)" "owner m1 = Some Rx" "waiters m1 = {}" by blast
  from k_mutex.unlock_free [OF assms m1(2,3)] m1(1) that show thesis by blast
qed

text \<open>The mutex is needed. With locks that are always granted, a forward that was cancelled while its
  handler was under way is published all the same.\<close>

definition no_mutex :: "(pool_thread, unit) k_mutex_api" where
  "no_mutex = \<lparr>k_mutex_free = (), k_mutex_lock = (\<lambda>t m. (True, m)), k_mutex_unlock = (\<lambda>t m. (None, m))\<rparr>"

lemma without_mutex:
  assumes "k_work K waiting" "length (pool st) = TS_CONTENTION_POOL_SIZE"
  shows "\<exists>s. (lk_step no_mutex K waiting {Call_Schedule cfg x rssi, Call_Cancel (rh_src (msg_route x)) (rh_msg_id (msg_route x))})\<^sup>*\<^sup>*
      (lk_start no_mutex K st) s \<and> lk_accepted s = {#x#} \<and> lk_cancelled s = {#x#} \<and> lk_published s = {#x#}"
proof -
  let ?c = "Call_Cancel (rh_src (msg_route x)) (rh_msg_id (msg_route x))"
  let ?calls = "{Call_Schedule cfg x rssi, ?c}" and ?s0 = "lk_start no_mutex K st"
  let ?step = "lk_step no_mutex K waiting ?calls"
  have "k_mutex_lock no_mutex Rx (k_mutex_free no_mutex) = (True, ())" "k_mutex_unlock no_mutex Rx () = (None, ())"
    by (simp_all add: no_mutex_def)
  from schedule_runs [OF this assms(2), of cfg x rssi ?calls K waiting] obtain p where
    run: "?step\<^sup>*\<^sup>* ?s0 (?s0\<lparr>lk_pool := p, lk_mutex := (), lk_accepted := {#x#}\<rparr>)"
    and p: "length (pool p) = TS_CONTENTION_POOL_SIZE" "ct_msg (pool p ! 0) = x" "ct_occupied (pool p ! 0)"
      "find_slot_by_msg (rh_src (msg_route x)) (rh_msg_id (msg_route x)) (pool p) = Some 0"
      "waiting (ct_work (pool p ! 0)) \<noteq> None"
    using k_work.schedule_waits [OF assms(1)] by auto
  have 0: "0 < length (pool p)" "0 < TS_CONTENTION_POOL_SIZE" using p(1) by (simp_all add: TS_CONTENTION_POOL_SIZE_def)
  let ?w = "k_work_cancel_delayable K (ct_work (pool p ! 0))"
  let ?q = "put_slot 0 (\<lambda>s. s\<lparr>ct_work := ?w\<rparr>) p"
  have q: "find_slot_by_msg (rh_src (msg_route x)) (rh_msg_id (msg_route x)) (pool ?q) = Some 0"
    using find_slot_put [OF p(4) 0(1)] by (simp add: pool_put_slot)
  let ?a = "?s0\<lparr>lk_pool := p, lk_mutex := (), lk_accepted := {#x#}\<rparr>"
  let ?b = "?a\<lparr>lk_pool := ?q, lk_wq := Wq_In 0 x\<rparr>"
  let ?d = "?b\<lparr>lk_wq := Wq_Copy 0 x\<rparr>"
  let ?e = "?d\<lparr>lk_rx := Rx_In ?c\<rparr>"
  let ?f = "?e\<lparr>lk_rx := Rx_Cancel (rh_src (msg_route x)) (rh_msg_id (msg_route x)) 0\<rparr>"
  let ?r = "run_stmt K (Work_Cancel 0) ?q"
  let ?g = "?f\<lparr>lk_pool := ?r, lk_rx := store_then [Set_Occupied 0 False] None, lk_cancelled := {#x#}\<rparr>"
  let ?h = "?g\<lparr>lk_wq := Wq_Free 0 x x\<rparr>"
  let ?i = "?h\<lparr>lk_pool := run_stmt K (Set_Occupied 0 False) ?r, lk_wq := Wq_Out 0 x (Some x)\<rparr>"
  let ?j = "?i\<lparr>lk_mutex := (), lk_wq := Wq_Publish 0 x x\<rparr>"
  let ?k = "?j\<lparr>lk_wq := Wq_Idle, lk_published := {#x#}\<rparr>"
  have "?step ?a ?b"
    using lk_step.wq_start [of ?a 0 "pool p ! 0" waiting ?w no_mutex True "()" K ?calls] 0 p k_work.cancel_idle [OF assms(1)]
    by (simp add: lk_start_def no_mutex_def)
  moreover have "?step ?b ?d"
    using lk_step.wq_check [of ?b 0 x no_mutex K waiting ?calls] 0 p by simp
  moreover have "?step ?d ?e"
    using lk_step.rx_call [of ?d ?c ?calls no_mutex True "()" K waiting] by (simp add: lk_start_def no_mutex_def)
  moreover have "?step ?e ?f"
    using lk_step.rx_found [of ?e _ _ 0 no_mutex K waiting ?calls] q by simp
  moreover have "?step ?f ?g"
    using lk_step.rx_cancel [of ?f _ _ 0 no_mutex K waiting ?calls] 0 p by (simp add: lk_start_def)
  moreover have "?step ?g ?h"
    using lk_step.wq_copy [of ?g 0 x no_mutex K waiting ?calls] 0 p by simp
  moreover have "?step ?h ?i"
    using lk_step.wq_free [of ?h 0 x x no_mutex K waiting ?calls] by simp
  moreover have "?step ?i ?j"
    using lk_step.wq_unlock [of ?i 0 x "Some x" no_mutex None "()" K waiting ?calls] by (simp add: no_mutex_def resume_def)
  moreover have "?step ?j ?k"
    using lk_step.wq_publish [of ?j 0 x x no_mutex K waiting ?calls] by (simp add: lk_start_def)
  ultimately have "?step\<^sup>*\<^sup>* ?s0 ?k" using run by (meson rtranclp.rtrancl_into_rtrancl)
  then show ?thesis by (intro exI [of _ ?k]) simp
qed

lemma ref_schedule_run:
  "\<exists>s. (lk_step ref_k_mutex ref_k_work (\<lambda>w. w) {Call_Schedule TS_CONFIG_DEFAULTS zero_msg (-60)})\<^sup>*\<^sup>*
     (lk_start ref_k_mutex ref_k_work blank_pool) s \<and> lk_accepted s = {#zero_msg#} \<and> lk_published s = {#} \<and>
     lk_wq s = Wq_Idle \<and> lk_rx s = Rx_Idle \<and> lk_cancelled s = {#}"
proof -
  obtain m1 m2 where "k_mutex_lock ref_k_mutex Rx (k_mutex_free ref_k_mutex) = (True, m1)"
    "k_mutex_unlock ref_k_mutex Rx m1 = (None, m2)" by (rule start_mutex [OF ref_k_mutex.k_mutex_axioms])
  from schedule_runs [OF this blank_pool_length singletonI]
  obtain p where "(lk_step ref_k_mutex ref_k_work (\<lambda>w. w) {Call_Schedule TS_CONFIG_DEFAULTS zero_msg (-60)})\<^sup>*\<^sup>*
     (lk_start ref_k_mutex ref_k_work blank_pool)
     ((lk_start ref_k_mutex ref_k_work blank_pool)\<lparr>lk_pool := p, lk_mutex := m2, lk_accepted := {#zero_msg#}\<rparr>)" by blast
  then show ?thesis by (intro exI conjI) (assumption, simp_all add: lk_start_def)
qed

text \<open>(C14) The mutex makes the calls atomic. Every run of the two threads through the statements of
  the locked calls is a run of the atomic model, in which a call, the handler's look at its
  slot and the publication are single steps; so what holds of the atomic model in all
  interleavings holds of the code with its mutex. In particular every accepted forward is
  published, copied out, cancelled or still pending, and only one of these, where the call
  under way counts as finished. Without the mutex this is false (lemma \<open>without_mutex\<close>).\<close>

theorem pool_lock_refines_atomic:
  fixes M :: "(pool_thread, 'm) k_mutex_api"
  assumes "k_mutex M owner waiters" "k_work K waiting" "length (pool st) = TS_CONTENTION_POOL_SIZE"
    and "Call_Init \<notin> calls" "(lk_step M K waiting calls)\<^sup>*\<^sup>* (lk_start M K st) s"
  shows "(fw_step K waiting)\<^sup>*\<^sup>* (fw_init K st) (lk_abs K s) \<and>
    lk_accepted s = lk_published s + wq_inflight (lk_wq s) + lk_cancelled s +
      pending (pool_after K (lk_rx s) (lk_pool s))"
proof -
  have run: "(fw_step K waiting)\<^sup>*\<^sup>* (fw_init K st) (lk_abs K s)" by (rule lk_run_abs [OF assms])
  with fw_reachable_ok [OF assms(3) run] show ?thesis by (simp add: fw_balanced_def lk_abs_def)
qed

theorem pool_lock_refines_atomic_witness:
  "\<exists>s. (lk_step ref_k_mutex ref_k_work (\<lambda>w. w) {Call_Schedule TS_CONFIG_DEFAULTS zero_msg (-60)})\<^sup>*\<^sup>*
     (lk_start ref_k_mutex ref_k_work blank_pool) s \<and>
     (fw_step ref_k_work (\<lambda>w. w))\<^sup>*\<^sup>* (fw_init ref_k_work blank_pool) (lk_abs ref_k_work s) \<and>
     pending (lk_pool s) = {#zero_msg#}"
proof -
  obtain s where s: "(lk_step ref_k_mutex ref_k_work (\<lambda>w. w) {Call_Schedule TS_CONFIG_DEFAULTS zero_msg (-60)})\<^sup>*\<^sup>*
     (lk_start ref_k_mutex ref_k_work blank_pool) s" "lk_accepted s = {#zero_msg#}" "lk_published s = {#}"
     "lk_wq s = Wq_Idle" "lk_rx s = Rx_Idle" "lk_cancelled s = {#}" using ref_schedule_run by blast
  from pool_lock_refines_atomic [OF ref_k_mutex.k_mutex_axioms ref_k_work.k_work_axioms blank_pool_length _ s(1)] s
  show ?thesis by (intro exI [of _ s]) simp
qed

text \<open>(C13) What the mutex and its hand-over give, for any number of \<open>schedule\<close> and \<open>cancel\<close> calls: the two
  threads are never in their locked parts together; a handler publishes only the message whose
  own delay ended when the handler was started, even if its slot is cancelled and taken again
  meanwhile; and from every reachable state both threads can finish what they have begun, so
  no call blocks for ever.\<close>

theorem pool_lock_safe:
  fixes M :: "(pool_thread, 'm) k_mutex_api"
  assumes "k_mutex M owner waiters" "k_work K waiting" "length (pool st) = TS_CONTENTION_POOL_SIZE"
    and "Call_Init \<notin> calls" "(lk_step M K waiting calls)\<^sup>*\<^sup>* (lk_start M K st) s"
  shows "\<not> (rx_holds (lk_rx s) \<and> wq_holds (lk_wq s)) \<and>
    (\<forall>i g x. lk_wq s = Wq_Publish i g x \<longrightarrow> x = g) \<and>
    (\<exists>s'. (lk_step M K waiting calls)\<^sup>*\<^sup>* s s' \<and> lk_rx s' = Rx_Idle \<and> lk_wq s' = Wq_Idle)"
proof -
  have ok: "lk_locked owner waiters s" "no_init (lk_rx s)" "lk_due waiting s"
    using lk_run_ok [OF assms] by simp_all
  have "\<not> (rx_holds (lk_rx s) \<and> wq_holds (lk_wq s))" using lock_ok_exclusive [OF ok(1)] by blast
  moreover have "\<forall>i g x. lk_wq s = Wq_Publish i g x \<longrightarrow> x = g" using ok(3) by (auto simp: lk_due_def)
  ultimately show ?thesis using lk_settles [OF assms(1,4) ok(1,2)] by blast
qed

theorem pool_lock_safe_witness:
  "\<exists>s s'. (lk_step ref_k_mutex ref_k_work (\<lambda>w. w) {Call_Schedule TS_CONFIG_DEFAULTS zero_msg (-60)})\<^sup>*\<^sup>*
     (lk_start ref_k_mutex ref_k_work blank_pool) s \<and> \<not> (rx_holds (lk_rx s) \<and> wq_holds (lk_wq s)) \<and>
     (lk_step ref_k_mutex ref_k_work (\<lambda>w. w) {Call_Schedule TS_CONFIG_DEFAULTS zero_msg (-60)})\<^sup>*\<^sup>* s s' \<and>
     lk_rx s' = Rx_Idle \<and> lk_wq s' = Wq_Idle"
proof -
  obtain s where s: "(lk_step ref_k_mutex ref_k_work (\<lambda>w. w) {Call_Schedule TS_CONFIG_DEFAULTS zero_msg (-60)})\<^sup>*\<^sup>*
     (lk_start ref_k_mutex ref_k_work blank_pool) s" using ref_schedule_run by blast
  from pool_lock_safe [OF ref_k_mutex.k_mutex_axioms ref_k_work.k_work_axioms blank_pool_length _ s] s
  show ?thesis by auto
qed

text \<open>(C39) \<open>ts_contention_init\<close> is not safe for reuse, although a comment says so: it waits for the
  running handler of a slot while it holds the mutex that handler needs. With a forward
  pending, a second call can lead to a state from which neither thread ever moves again.\<close>

theorem reinit_deadlocks:
  fixes M :: "(pool_thread, 'm) k_mutex_api"
  assumes "k_mutex M owner waiters" "k_work K waiting" "length (pool st) = TS_CONTENTION_POOL_SIZE"
  shows "\<exists>s. (lk_step M K waiting {Call_Schedule cfg x rssi, Call_Init})\<^sup>*\<^sup>* (lk_start M K st) s \<and>
    lk_rx s = Rx_Init 0 \<and> lk_wq s = Wq_Wait 0 x \<and>
    (\<nexists>s'. lk_step M K waiting {Call_Schedule cfg x rssi, Call_Init} s s')"
proof -
  let ?calls = "{Call_Schedule cfg x rssi, Call_Init}" and ?s0 = "lk_start M K st"
  let ?step = "lk_step M K waiting ?calls"
  obtain m1 m2 where m1: "k_mutex_lock M Rx (k_mutex_free M) = (True, m1)" "k_mutex_unlock M Rx m1 = (None, m2)"
    and m2: "owner m2 = None" "waiters m2 = {}" by (rule start_mutex [OF assms(1)])
  from schedule_runs [OF m1 assms(3), of cfg x rssi ?calls K waiting] obtain p where
    run: "?step\<^sup>*\<^sup>* ?s0 (?s0\<lparr>lk_pool := p, lk_mutex := m2, lk_accepted := {#x#}\<rparr>)"
    and p: "pool_initialized p" "ct_msg (pool p ! 0) = x" "waiting (ct_work (pool p ! 0)) \<noteq> None"
    using k_work.schedule_waits [OF assms(2)] by auto
  from k_mutex.lock_free [OF assms(1) m2, of Rx] obtain m3 where
    m3: "k_mutex_lock M Rx m2 = (True, m3)" "owner m3 = Some Rx" by blast
  from k_mutex.lock_taken [OF assms(1) m3(2), of Wq] obtain m4 where m4: "k_mutex_lock M Wq m3 = (False, m4)" by auto
  let ?s3 = "?s0\<lparr>lk_pool := p, lk_mutex := m2, lk_accepted := {#x#}\<rparr>"
  let ?s4 = "?s3\<lparr>lk_mutex := m3, lk_rx := Rx_In Call_Init\<rparr>"
  let ?s5 = "?s4\<lparr>lk_rx := Rx_Init 0\<rparr>"
  let ?w = "k_work_cancel_delayable K (ct_work (pool p ! 0))"
  let ?s6 = "?s5\<lparr>lk_pool := put_slot 0 (\<lambda>s. s\<lparr>ct_work := ?w\<rparr>) p, lk_mutex := m4, lk_wq := Wq_Wait 0 x\<rparr>"
  have "?step ?s3 ?s4"
    using lk_step.rx_call [of ?s3 Call_Init ?calls M True m3 K waiting] m3(1) by (simp add: lk_start_def)
  moreover have "?step ?s4 ?s5"
    using lk_step.rx_init [of ?s4 M K waiting ?calls] by (simp add: lk_start_def)
  moreover have "?step ?s5 ?s6"
    using lk_step.wq_start [of ?s5 0 "pool p ! 0" waiting ?w M False m4 K ?calls] m4 p(2,3)
      k_work.cancel_idle [OF assms(2)]
    by (simp add: lk_start_def TS_CONTENTION_POOL_SIZE_def)
  ultimately have "?step\<^sup>*\<^sup>* ?s0 ?s6" using run by (meson rtranclp.rtrancl_into_rtrancl)
  moreover have "\<nexists>s'. ?step ?s6 s'"
    using p(1) by (auto elim: lk_step.cases simp: TS_CONTENTION_POOL_SIZE_def)
  ultimately show ?thesis by (intro exI [of _ ?s6]) simp
qed

theorem reinit_deadlocks_witness:
  "\<exists>s. (lk_step ref_k_mutex ref_k_work (\<lambda>w. w) {Call_Schedule TS_CONFIG_DEFAULTS zero_msg (-60), Call_Init})\<^sup>*\<^sup>*
       (lk_start ref_k_mutex ref_k_work blank_pool) s \<and>
     lk_rx s = Rx_Init 0 \<and> lk_wq s = Wq_Wait 0 zero_msg"
  using reinit_deadlocks [OF ref_k_mutex.k_mutex_axioms ref_k_work.k_work_axioms blank_pool_length] by blast

end
