(* ===== verification/Spec2Isabelle.thy ===== *)
theory Spec2Isabelle
  imports Flood Pool_Lock
begin

text \<open>
  \<^bold>\<open>Terrascope: a verification library for the node firmware\<close>

  Terrascope nodes form a LoRa mesh: a node reads its sensors, broadcasts the readings and a
  heartbeat, floods what it hears from other nodes, and can be reconfigured over the air.
  This library models the C code under \<open>src/src/\<close> of the repository and proves what makes
  it correct. File names below are relative to that directory.

  \<^bold>\<open>How the parts interact.\<close> \<open>main.c\<close> starts the modules and then publishes a heartbeat
  in a loop; the system work queue runs the sensor reading, the ageing of the neighbour table
  and the delayed forwards. Producers publish on a bus channel; the transmit task
  (\<open>lora/lora.c\<close>) reads the channel, stamps the key id, encodes (\<open>lora/cbor.c\<close>), appends a
  truncated CMAC (\<open>lora/auth.c\<close>) and sends. The receive task checks the CMAC, decodes,
  drops foreign key ids, its own messages and duplicates (\<open>routing/routing.c\<close>), records the
  sender as a neighbour (\<open>routing/routing_table.c\<close>), applies and acknowledges configuration
  requests (\<open>config/config.c\<close>), delivers what is addressed to the node and hands the rest to
  the contention pool (\<open>lora/contention.c\<close>), which publishes it again after a delay unless a
  duplicate is heard first.

  \<^bold>\<open>Theories.\<close>
  \<^item> \<open>Prelude\<close>: machine integer types, errno values, byte and string operations, the
    collections \<open>loop_simps\<close>, \<open>mem_simps\<close> and \<open>inv_intros\<close>, loops over index ranges.
  \<^item> \<open>Slots\<close>: arrays of slots with an occupied flag as finite maps (locale \<open>slot_table\<close>); the
    neighbour table is an instance.
  \<^item> \<open>Messages\<close>: \<open>messages/messages.h\<close> and the route header; the tagged union is a datatype.
  \<^item> \<open>Platform\<close>: the code outside the repository as records of functions, each with a locale that
    states its documented behaviour: zcbor (\<open>zcbor\<close>, \<open>zcbor_sized\<close>), PSA crypto (\<open>psa\<close>), settings
    (\<open>settings\<close>), delayable work (\<open>k_work\<close>), mutexes (\<open>k_mutex\<close>, with the hand-over to a waiting
    thread), message queues (\<open>k_msgq\<close>), the bus (\<open>zbus\<close>, and \<open>zbus_queue\<close> with the bound of the
    notification queue) and radio drivers (\<open>lora_driver\<close>). Flash storage that keeps the old value
    when a save fails is \<open>settings_atomic\<close>.
  \<^item> \<open>Platform_Reference\<close>, \<open>Cbor_Reference\<close>: an implementation of each of them that meets its
    contract (for CBOR, a codec after RFC 8949); the concrete runs use them.
  \<^item> \<open>Config\<close>: \<open>config/\<close>. The live configuration is the memory of the struct, written through
    the offset table as the code does. Sets change exactly the named field or nothing, all
    fields stay in range, values survive a restart (one key does not: its name is truncated).
  \<^item> \<open>Routing\<close>: \<open>routing/routing.c\<close>. The ring of seen messages implements a window of the last
    32 (locale \<open>replay_window\<close>), ids of a node are unique, the hop limit bounds relaying; the
    32-bit entry counter eventually wraps.
  \<^item> \<open>Routing_Table\<close>: \<open>routing/routing_table.c\<close>. Update, eviction and ageing as operations on a
    finite map; the table invariant over all reachable tables.
  \<^item> \<open>Auth\<close>: \<open>lora/auth.c\<close>. Key parsing, and exactness of tag verification (locale
    \<open>authenticator\<close>, a sublocale of \<open>psa\<close>).
  \<^item> \<open>Cbor\<close>: \<open>lora/cbor.c\<close>. The encoder against the sequence of items of a message, round trip,
    rejection of truncated input, the size bound, and that whatever is accepted is
    well-formed.
  \<^item> \<open>Contention\<close>: \<open>lora/contention.c\<close>. The pool as a bounded multiset of pending forwards; all
    interleavings of receive thread and work queue as a step relation, with the accounting
    invariant and the possibility to drain; the delay function with its unsigned arithmetic.
    The locale \<open>pending_pool\<close> states the pool's contract for its clients.
  \<^item> \<open>Pool_Lock\<close>: the same calls with \<open>pool_mutex\<close>, statement by statement: two threads that lock,
    block, run and unlock (\<open>lk_step\<close>), interleaved between any two statements. By the contract
    of the mutex the locked calls implement the atomic ones of \<open>Contention\<close>, and without it they
    do not; mutual exclusion, no call blocks for ever, a handler publishes only its own message; a second
    \<open>ts_contention_init\<close> can deadlock.
  \<^item> \<open>Sensors\<close>: \<open>sensors/\<close> and \<open>logging/logging.c\<close>.
  \<^item> \<open>Lora_Mock\<close>: \<open>drivers/lora_mock.c\<close>, an instance of \<open>lora_driver\<close>.
  \<^item> \<open>Lora\<close>: \<open>lora/lora.c\<close>; \<open>platform\<close> collects the interfaces, \<open>node\<close> the state of all modules,
    one function per prologue of a task and per iteration of its loop.
  \<^item> \<open>Node\<close>: \<open>main.c\<close>, the node as a state machine (\<open>node_step\<close>: the calls of \<open>main\<close> one by one,
    interleaved with the start of the radio tasks, their iterations, heartbeat, timers, work
    items), its invariant, failed starts, the duplicate window along a run, and a reference
    node.
  \<^item> \<open>Mesh\<close>: rows of nodes that hear each other; a broadcast message travels along every such
    row that is no longer than its hop limit.
  \<^item> \<open>Flood\<close>: a network of nodes over a lossy medium (\<open>net_step\<close>); a cost that every step lowers
    shows that flooding, acknowledgements included, comes to rest.
  \<^item> this theory: the properties that span components. Only authentic packets act; what one
    node sends, a node with the same key understands; what happens to a fresh message, to a
    relayed one, to a duplicate and to a configuration request; the invariant of the whole
    node; what a node does whose radio or key is unusable; and four defects of the composition.

  \<^bold>\<open>Conventions.\<close> C integers are words of their width; signed and unsigned ones share a
  type, and the operations choose the reading. \<open>int\<close> status codes are integers, output
  parameters are results (\<open>Inl\<close> an error), \<open>NULL\<close> is \<open>None\<close>. Operations that hold a mutex from
  start to end are atomic; for the forwarding pool \<open>Pool_Lock\<close> proves that they may be taken so,
  the mutexes of the configuration and the neighbour table are only ever held for one such
  operation and nothing waits under them. The uptime clock is an argument. The ABI is little-endian with
  natural alignment and 32-bit enumerations. Every loop runs over a fixed index range or is
  one iteration of an endless task, so no fuel is needed. The radio tasks may
  run before and between the calls of \<open>main\<close>, each of which is one step: in the code they have
  the priority to do so. In \<open>Flood\<close> the
  medium hands a packet to the receive path directly and takes what the transmit task would
  send; new heartbeats and readings are not part of its runs.

  \<^bold>\<open>Not modelled.\<close> The \<open>LOG_*\<close> output (except the line \<open>log_chan_pub_ret\<close> chooses), the clearing
  of stack buffers in \<open>auth.c\<close>, the contents of the output struct after a decoding error,
  stack sizes, thread priorities (all interleavings of steps are considered), reads of a
  configuration that \<open>ts_config_init\<close> is about to replace, the passing of time (a started
  timer may expire at any moment), build files, devicetree, the generated version header, tests.
  Blocking in the kernel is modelled for the mutex of the forwarding pool only. The contract of
  zcbor leaves out its checks of element counts and of maps that were opened and not closed;
  the calls in \<open>cbor.c\<close> are balanced and within the counts they announce.
\<close>

section \<open>The radio link\<close>

text \<open>(C1) Unauthenticated packets have no effect. If an iteration of the receive task changes
  anything but the state of the radio, then the packet it received is a non-empty message
  followed by the first eight bytes of the CMAC of that message under the network key.\<close>

theorem only_authentic_packets_act:
  assumes "psa (p_psa E) cmac" and "denotes_key (p_network_key E) kb"
    and "length (network_key a0) = 16" and "ts_auth_init (p_psa E) (p_network_key E) a0 = (0, n_auth nd)"
    and "lora_driver (p_lora E) ok" and "ok (n_radio nd)"
    and "lora_recv (p_lora E) LORA_RX_BUFFER_SIZE (n_radio nd) = ((len, data, rssi, snr), l)"
    and "lora_in_iteration E now nd \<noteq> nd\<lparr>n_radio := l\<rparr>"
  shows "length data \<le> 255 \<and> (\<exists>d. d \<noteq> [] \<and> data = d @ take TS_AUTH_TAG_SIZE (cmac kb d))"
proof -
  have eff: "lora_in_packet E now len data rssi snr (nd\<lparr>n_radio := l\<rparr>) \<noteq> nd\<lparr>n_radio := l\<rparr>"
    using assms(7,8) by (simp add: lora_in_iteration_def)
  then have "\<not> len \<le> 8" using not_authentic_ignored by blast
  with lora_driver.recv_fits [OF assms(5-7)] have len: "len \<le> 255" "int (length data) = len"
    by (simp_all add: LORA_RX_BUFFER_SIZE_def)
  from effect_needs_authentic [OF assms(1) len(2) eff] obtain d t where
    "d \<noteq> []" "data = d @ t" "sign_bytes (p_psa E) (n_auth nd) d = Inr t" by auto
  with psa.loaded_sign [OF assms(1-4)] len show ?thesis
    by (auto simp: TS_AUTH_TAG_SIZE_def)
qed

theorem only_authentic_packets_act_witness:
  "\<exists>pkt d. lora_out_packet ref_platform ref_auth ref_reading = Inr pkt \<and>
     n_routing (lora_in_iteration ref_platform 100 (ref_rx pkt)) \<noteq> n_routing (ref_rx pkt) \<and>
     pkt = d @ take 8 (ref_cmac ref_key d)"
proof -
  obtain pkt where pkt: "lora_out_packet ref_platform ref_auth ref_reading = Inr pkt" "length pkt \<le> 146"
    using ref_packet [OF ref_reading_wf(1,2)] by blast
  have "length pkt \<le> unat LORA_RX_BUFFER_SIZE" using pkt(2) by (simp add: LORA_RX_BUFFER_SIZE_def)
  with ref_mock.recv_queue [of "n_radio (ref_rx pkt)" pkt "[]" LORA_RX_BUFFER_SIZE] obtain l where
    r: "lora_recv (lora_mock_api ref_k_msgq) LORA_RX_BUFFER_SIZE (n_radio (ref_rx pkt)) =
      ((int (length pkt), pkt, -42, 10), l)"
    by (auto simp: ref_rx_def lora_mock_api_def)
  let ?nd = "(ref_rx pkt)\<lparr>n_radio := l\<rparr>"
  have it: "lora_in_iteration ref_platform 100 (ref_rx pkt) = lora_in_message ref_platform 100 ref_heard ?nd"
    using r ref_received [OF pkt(1), of ?nd 100] by (simp add: lora_in_iteration_def ref_rx_def)
  have "fresh_for ref_platform (msg_route (in_msg ref_heard)) ?nd"
    using ref_reading_fresh by (simp add: fresh_for_def ref_heard_def ref_rx_def)
  from in_message_fresh_window [OF this, of 100] seen_recent_mark [OF seen_valid_init, of 1]
  have "seen_recent (n_routing (lora_in_iteration ref_platform 100 (ref_rx pkt))) \<noteq> []"
    unfolding it by (simp add: window_def ref_rx_def)
  then have n: "n_routing (lora_in_iteration ref_platform 100 (ref_rx pkt)) \<noteq> n_routing (ref_rx pkt)"
    by (auto simp: ref_rx_def)
  have ne: "lora_in_iteration ref_platform 100 (ref_rx pkt) \<noteq> ?nd"
    by (rule contrapos_nn [OF n]) simp
  have ok: "mock_ok snd (n_radio (ref_rx pkt))"
    using pkt(2) by (simp add: mock_ok_def ref_rx_def mock_packet_def MOCK_LOOPBACK_BUF_SIZE_def)
  have "\<exists>d. pkt = d @ take 8 (ref_cmac ref_key d)"
    using only_authentic_packets_act [of ref_platform ref_cmac ref_key blank_auth "ref_rx pkt" "mock_ok snd"
        "int (length pkt)" pkt "-42" 10 l 100] ok r ne
      ref_psa.psa_axioms denotes_ref_key blank_auth_length ref_auth_init ref_mock.driver.lora_driver_axioms
    by (auto simp: ref_rx_def TS_AUTH_TAG_SIZE_def)
  with pkt(1) n show ?thesis by blast
qed

text \<open>(C2) End to end: two nodes whose key strings denote the same key understand each other.
  Every message of a known type is encoded, signed and sent in a packet of at most 146 bytes,
  and the receiver handles that packet as exactly that message, with the sender's key id.\<close>

theorem sent_packet_understood:
  assumes "zcbor_sized (p_zcbor E) wire room rest depth" and "p_zcbor F = p_zcbor E"
    and "psa (p_psa E) cmac" and "psa (p_psa F) cmac"
    and "denotes_key (p_network_key E) kb" and "denotes_key (p_network_key F) kb"
    and "length (network_key a0) = 16" and "ts_auth_init (p_psa E) (p_network_key E) a0 = (0, a)"
    and "length (network_key b0) = 16" and "ts_auth_init (p_psa F) (p_network_key F) b0 = (0, n_auth nd)"
    and "\<And>d. fst (psa_mac_compute (p_psa E) (psa_store a) (auth_key_id a) PSA_ALG_CMAC d) = 0"
    and "\<And>d. fst (psa_mac_compute (p_psa F) (psa_store (n_auth nd)) (auth_key_id (n_auth nd)) PSA_ALG_CMAC d) = 0"
    and "known_type (msg_data m)" and "wf_data (msg_data m)"
  shows "\<exists>pkt. lora_out_packet E a m = Inr pkt \<and> length pkt \<le> 146 \<and>
    lora_in_packet F now (int (length pkt)) pkt rssi snr nd =
      lora_in_message F now
        \<lparr>in_msg = m\<lparr>msg_route := (msg_route m)\<lparr>rh_key_id := ts_auth_get_key_id (p_key_id E)\<rparr>,
                    msg_data := received_data (msg_data m)\<rparr>,
         in_rssi = rssi, in_snr = snr\<rparr> nd"
  by (rule packet_understood [OF assms])

theorem sent_packet_understood_witness:
  "\<exists>pkt. lora_out_packet ref_platform ref_auth ref_reading = Inr pkt \<and>
     lora_in_packet ref_platform 100 (int (length pkt)) pkt (-42) 10 ref_node =
       lora_in_message ref_platform 100 ref_heard ref_node"
  using sent_packet_understood [of ref_platform ref_wire snd fst snd ref_platform ref_cmac ref_key
      blank_auth ref_auth blank_auth ref_node ref_reading 100 "-42" 10]
    ref_zcbor.zcbor_sized_axioms ref_psa.psa_axioms denotes_ref_key blank_auth_length ref_auth_init ref_mac
    ref_reading_wf
  by (auto simp: ref_heard_def)

section \<open>The receive path\<close>

text \<open>(C5) A fresh message (from another node, under the current key id, not seen recently) that is
  not a configuration request for this node: it is delivered exactly when it is addressed to
  this node or broadcast; it is queued for forwarding, with one hop less, exactly when it is
  no configuration message, has at least two hops left and the pool has a free slot; its
  sender is recorded as a neighbour, all others keep their entries but for the oldest one when
  the table is full; it enters the window of the last 32 messages, of which the oldest drops
  out (until the counter of the filter has wrapped). Nothing else changes: nothing is
  transmitted at once, and configuration, key, timers and tasks stay as they are.\<close>

theorem fresh_message_handled:
  assumes "zbus (p_zbus E) current notified delivered"
    and "node_ok nd" and "fresh_for E (msg_route (in_msg im)) nd" and "wf_data (msg_data (in_msg im))"
    and "\<not> (ts_routing_is_for_us (n_routing nd) (msg_route (in_msg im)) \<and>
            msg_type (msg_data (in_msg im)) = TS_MSG_CONFIG_SET)"
    and "fst (zbus_chan_pub_in (p_zbus E) im (n_bus nd)) = 0"
  shows "let nd' = lora_in_message E now im nd; h = msg_route (in_msg im) in
    delivered (n_bus nd') = delivered (n_bus nd) @ (if ts_routing_is_for_us (n_routing nd) h then [im] else []) \<and>
    pending (n_pool nd') = pending (n_pool nd) +
      (if msg_type (msg_data (in_msg im)) \<notin> {TS_MSG_CONFIG_SET, TS_MSG_CONFIG_ACK} \<and> 2 \<le> rh_ttl h \<and>
          size (pending (n_pool nd)) < TS_CONTENTION_POOL_SIZE
       then {#(in_msg im)\<lparr>msg_route := h\<lparr>rh_ttl := rh_ttl h - 1\<rparr>\<rparr>#} else {#}) \<and>
    ts_routing_table_lookup (rh_src h) (n_table nd') =
      Inr (updated_entry now (ts_config_get (n_config nd)) (rh_src h) (in_rssi im) (in_snr im) (rh_ttl h) (n_table nd)) \<and>
    current (n_bus nd') = current (n_bus nd) \<and> notified (n_bus nd') = notified (n_bus nd) \<and>
    n_config nd' = n_config nd \<and>
    records_neighbour (rh_src h) (updated_entry now (ts_config_get (n_config nd)) (rh_src h) (in_rssi im) (in_snr im)
      (rh_ttl h) (n_table nd)) (n_table nd) (n_table nd') \<and>
    (seen_valid (n_routing nd) \<and> 0 < seen_left (n_routing nd) \<longrightarrow>
      seen_recent (n_routing nd') = take 32 (hdr_key h # seen_recent (n_routing nd))) \<and>
    (\<exists>t z p. nd' = nd\<lparr>n_routing := ts_routing_mark_seen h (n_routing nd), n_table := t, n_bus := z, n_pool := p\<rparr>)"
proof -
  let ?h = "msg_route (in_msg im)" and ?d = "msg_data (in_msg im)"
  let ?z = "if ts_routing_is_for_us (n_routing nd) ?h then snd (zbus_chan_pub_in (p_zbus E) im (n_bus nd)) else n_bus nd"
  let ?n = "(noted now im nd)\<lparr>n_bus := ?z\<rparr>"
  note nd' = in_message_fresh [OF assms(3-5), of now]
  have ok: "pool_ok (n_pool nd)" "table_ok (n_table nd)" using assms(2) by (simp_all add: node_ok_def)
  have bus: "delivered ?z = delivered (n_bus nd) @ (if ts_routing_is_for_us (n_routing nd) ?h then [im] else [])"
    "current ?z = current (n_bus nd)" "notified ?z = notified (n_bus nd)"
    using zbus.pub_in [OF assms(1), of im "n_bus nd" 0 "snd (zbus_chan_pub_in (p_zbus E) im (n_bus nd))"] assms(6)
    by (auto simp: prod_eq_iff)
  have pool: "pending (n_pool (forward_message E (in_msg im) (in_rssi im) ?n)) = pending (n_pool nd) +
      (if 2 \<le> rh_ttl ?h \<and> size (pending (n_pool nd)) < TS_CONTENTION_POOL_SIZE
       then {#(in_msg im)\<lparr>msg_route := ?h\<lparr>rh_ttl := rh_ttl ?h - 1\<rparr>\<rparr>#} else {#})"
    using forward_pending [of ?n E "in_msg im" "in_rssi im"] ok(1) by (simp add: noted_def)
  let ?e = "updated_entry now (ts_config_get (n_config nd)) (rh_src ?h) (in_rssi im) (in_snr im) (rh_ttl ?h) (n_table nd)"
  have n: "neighbours (n_table (noted now im nd)) (rh_src ?h) = Some ?e"
    "records_neighbour (rh_src ?h) ?e (n_table nd) (n_table (noted now im nd))" "n_config (noted now im nd) = n_config nd"
    "seen_valid (n_routing nd) \<and> 0 < seen_left (n_routing nd) \<longrightarrow>
      seen_recent (n_routing (noted now im nd)) = take 32 (hdr_key ?h # seen_recent (n_routing nd))"
    using update_effect(3) [OF ok(2)] update_records [OF ok(2)] seen_recent_mark [of "n_routing nd" ?h]
    by (simp_all add: noted_def)
  obtain p where p: "lora_in_message E now im nd = ?n\<lparr>n_pool := p\<rparr>" "pending p = pending (n_pool nd) +
      (if msg_type ?d \<notin> {2, 3} \<and> 2 \<le> rh_ttl ?h \<and> size (pending (n_pool nd)) < TS_CONTENTION_POOL_SIZE
       then {#(in_msg im)\<lparr>msg_route := ?h\<lparr>rh_ttl := rh_ttl ?h - 1\<rparr>\<rparr>#} else {#})"
  proof (cases "msg_type ?d \<in> {2, 3}")
    case True
    show thesis by (rule that [of "n_pool nd"]) (use True in \<open>simp_all add: nd' Let_def noted_def\<close>)
  next
    case False
    obtain q where q: "forward_message E (in_msg im) (in_rssi im) ?n = ?n\<lparr>n_pool := q\<rparr>"
      using forward_only_pool by blast
    show thesis by (rule that [of q]) (use False q pool in \<open>simp_all add: nd' Let_def\<close>)
  qed
  have frame: "\<exists>t z p. lora_in_message E now im nd =
      nd\<lparr>n_routing := ts_routing_mark_seen ?h (n_routing nd), n_table := t, n_bus := z, n_pool := p\<rparr>"
    unfolding p(1) by (intro exI [of _ "n_table ?n"] exI [of _ ?z] exI [of _ p]) (simp add: noted_def)
  show ?thesis
    unfolding Let_def by (intro conjI frame) (simp_all add: p bus n lookup_neighbours)
qed

theorem fresh_message_handled_witness:
  "snd (snd (n_bus (lora_in_message ref_platform 100 ref_heard ref_node))) = [ref_heard] \<and>
   pending (n_pool (lora_in_message ref_platform 100 ref_heard ref_node)) =
     {#ref_reading\<lparr>msg_route := (msg_route ref_reading)\<lparr>rh_ttl := 2\<rparr>\<rparr>#}"
  using fresh_message_handled [of ref_platform fst "\<lambda>z. fst (snd z)" "\<lambda>z. snd (snd z)" ref_node ref_heard 100]
    ref_zbus.zbus_axioms ref_node_ok ref_reading_fresh ref_reading_wf
  by (simp add: Let_def TS_CONTENTION_POOL_SIZE_def ts_routing_is_for_us_def)
    (simp add: ref_zbus_def)

text \<open>Such a message is relayed: when bus and radio work and no other message is waiting, there
  is a slot such that after its timer has fired and the transmit task has run, the radio has
  sent the packet of that message with one hop less.\<close>

lemma fresh_message_relayed:
  assumes "zbus (p_zbus E) current notified delivered"
    and "\<And>m z. notified z = 0 \<Longrightarrow> fst (zbus_chan_pub_out (p_zbus E) m z) = 0"
    and "\<And>z. 0 < notified z \<Longrightarrow> fst (zbus_sub_wait (p_zbus E) z) = 0"
    and "\<And>z. fst (zbus_chan_read_out (p_zbus E) z) = 0"
    and "node_ok nd" and "fresh_for E (msg_route (in_msg im)) nd" and "wf_data (msg_data (in_msg im))"
    and "msg_type (msg_data (in_msg im)) \<notin> {TS_MSG_CONFIG_SET, TS_MSG_CONFIG_ACK}"
    and "2 \<le> rh_ttl (msg_route (in_msg im))" and "size (pending (n_pool nd)) < TS_CONTENTION_POOL_SIZE"
    and "notified (n_bus nd) = 0"
    and "lora_out_packet E (n_auth nd) ((in_msg im)\<lparr>msg_route :=
           (msg_route (in_msg im))\<lparr>rh_ttl := rh_ttl (msg_route (in_msg im)) - 1\<rparr>\<rparr>) = Inr pkt"
  shows "\<exists>i < TS_CONTENTION_POOL_SIZE.
    n_radio (lora_out_iteration E (forward_timer E i (lora_in_message E now im nd))) =
      snd (lora_send (p_lora E) pkt (length pkt) (n_radio nd))"
  by (rule relays_fresh [OF assms])

text \<open>(C6) Flooding stops at nodes that know the message. After a node has accepted a message, and
  while fewer than 32 other messages were handled since (and fewer than \<open>2\<^sup>32 - 1\<close> since boot),
  another copy of it has no effect but to cancel one pending forward of that message, if
  there is one: it is neither delivered nor forwarded again, and a request in it is not
  applied twice.\<close>

theorem duplicate_suppressed:
  assumes "n_routing nd0 = ts_routing_init nid" and "node_ok nd0"
    and "length before + length between < 2 ^ 32 - 1" and "length between < 32"
    and "fresh_for E (msg_route (in_msg im)) (handle_all E before nd0)"
    and "nd = handle_all E (before @ (now, im) # between) nd0"
    and "msg_key (in_msg im') = msg_key (in_msg im)" and "rh_key_id (msg_route (in_msg im')) = ts_auth_get_key_id (p_key_id E)"
  shows "\<exists>p. lora_in_message E now' im' nd = nd\<lparr>n_pool := p\<rparr> \<and> pool_ok p \<and>
    (if \<exists>m. m \<in># pending (n_pool nd) \<and> msg_key m = msg_key (in_msg im)
     then \<exists>m. msg_key m = msg_key (in_msg im) \<and> pending (n_pool nd) = add_mset m (pending p)
     else p = n_pool nd)"
  by (rule copy_only_cancels [OF assms])

theorem duplicate_suppressed_witness:
  "\<exists>p. lora_in_message ref_platform 101 ref_heard (lora_in_message ref_platform 100 ref_heard ref_node) =
       (lora_in_message ref_platform 100 ref_heard ref_node)\<lparr>n_pool := p\<rparr> \<and> pool_ok p"
  using duplicate_suppressed [of ref_node 1 "[]" "[]" ref_platform ref_heard
      "lora_in_message ref_platform 100 ref_heard ref_node" 100 ref_heard 101]
    ref_node_ok ref_reading_fresh
  by (auto simp: handle_all_def ts_auth_get_key_id_def)

text \<open>(C7) A configuration request for this node is applied and acknowledged: the configuration
  becomes what \<open>ts_config_set\<close> gives, and the message published for transmission is an
  acknowledgement to the requester with the key, the value and the result of the set. The
  request is neither delivered nor forwarded.\<close>

theorem config_request_applied:
  assumes "zbus (p_zbus E) current notified delivered"
    and "fresh_for E (msg_route (in_msg im)) nd" and "msg_data (in_msg im) = Config_Set c"
    and "wf_key (cs_key c)" and "ts_routing_is_for_us (n_routing nd) (msg_route (in_msg im))"
    and "\<And>m. fst (zbus_chan_pub_out (p_zbus E) m (n_bus nd)) = 0"
    and "ts_config_set (p_settings E) (cstr (cs_key c)) (cs_value c) (n_config nd) = (ret, conf)"
  shows "let nd' = lora_in_message E now im nd; rs = n_routing nd in
    n_config nd' = conf \<and> n_pool nd' = n_pool nd \<and> delivered (n_bus nd') = delivered (n_bus nd) \<and>
    notified (n_bus nd') = notified (n_bus nd) + 1 \<and>
    current (n_bus nd') =
      \<lparr> msg_route = \<lparr> rh_src = self_node_id rs, rh_dst = rh_src (msg_route (in_msg im)),
          rh_msg_id = ucast (next_msg_id rs), rh_ttl = routing_ttl (ts_config_get conf), rh_key_id = 0 \<rparr>,
        msg_data = Config_Ack \<lparr> ca_key = cstr (cs_key c) @ replicate (TS_MSG_CONFIG_KEY_MAX - length (cstr (cs_key c))) NUL,
          ca_value = cs_value c, ca_result = word_of_int ret \<rparr> \<rparr>"
proof -
  let ?ack = "\<lparr> msg_route = \<lparr> rh_src = self_node_id (n_routing nd), rh_dst = rh_src (msg_route (in_msg im)),
          rh_msg_id = ucast (next_msg_id (n_routing nd)), rh_ttl = routing_ttl (ts_config_get conf), rh_key_id = 0 \<rparr>,
        msg_data = Config_Ack \<lparr> ca_key = cstr (cs_key c) @ replicate (TS_MSG_CONFIG_KEY_MAX - length (cstr (cs_key c))) NUL,
          ca_value = cs_value c, ca_result = word_of_int ret \<rparr> \<rparr>"
  have nd': "lora_in_message E now im nd = apply_config_set E (msg_route (in_msg im)) c (noted now im nd)"
    by (rule in_message_config_set [OF assms(2,3,5)])
  have "zbus_chan_pub_out (p_zbus E) ?ack (n_bus nd) = (0, snd (zbus_chan_pub_out (p_zbus E) ?ack (n_bus nd)))"
    using assms(6) [of ?ack] by (metis prod.collapse)
  from zbus.pub_out [OF assms(1) this] show ?thesis
    unfolding nd' using assms(7) ack_key [OF assms(4)]
    by (simp add: apply_config_set_def ts_routing_prepare_header_def noted_def zero_header_def)
qed

text \<open>Node 2 asks node 1 to use spreading factor 9.\<close>

definition ref_request :: ts_msg_lora_incoming where
  "ref_request =
    \<lparr>in_msg = sample_msg\<lparr>msg_route := (msg_route sample_msg)\<lparr>rh_dst := 1\<rparr>\<rparr>, in_rssi = -42, in_snr = 10\<rparr>"

theorem config_request_applied_witness:
  "let nd = lora_in_message ref_platform 100 ref_request ref_node in
     n_config nd = snd (ts_config_set ref_settings ''lora_sf'' 9 fresh_config) \<and>
     rh_dst (msg_route (fst (n_bus nd))) = 2 \<and>
     msg_data (fst (n_bus nd)) = Config_Ack \<lparr>ca_key = sample_key, ca_value = 9, ca_result = 0\<rparr>"
proof -
  let ?r = "ts_config_set ref_settings ''lora_sf'' 9 fresh_config"
  have key: "cstr sample_key = ''lora_sf''" by (simp add: sample_key_def cstr_def)
  have "CONFIG_KEY ''lora_sf'' 5 12 \<in> set config_keys" by (simp add: config_keys_def)
  from ref_set_succeeds [OF this, of "''lora_sf''" 9 fresh_config] have set: "?r = (0, snd ?r)"
    by (simp add: CONFIG_KEY_def)
  have "fresh_for ref_platform (msg_route (in_msg ref_request)) ref_node"
    by (simp add: fresh_for_def ref_not_seen)
      (simp add: ref_request_def sample_msg_def ts_auth_get_key_id_def ts_routing_init_def)
  with config_request_applied [of ref_platform fst "\<lambda>z. fst (snd z)" "\<lambda>z. snd (snd z)" ref_request ref_node
      "\<lparr>cs_key = sample_key, cs_value = 9\<rparr>" 0 "snd ?r" 100] ref_zbus.zbus_axioms set sample_wf
  show ?thesis
    by (simp add: key Let_def TS_MSG_CONFIG_KEY_MAX_def)
      (simp add: ref_request_def sample_msg_def ts_routing_is_for_us_def ts_routing_init_def ref_zbus_def
        sample_key_def)
qed

section \<open>The whole node\<close>

text \<open>(C8) The invariant of the node, from power-up over any interleaving of the calls of \<open>main\<close> with
  task starts, task iterations, heartbeats, timer expiries, sensor readings, ageing runs and
  delayed forwards: the configuration is in range; neighbour table, forwarding pool and
  duplicate ring are well-formed; the node has address 0 and no timer until \<open>main\<close> has
  initialised routing and started the timers, then an address and intervals that lie in the
  configured ranges. Once \<open>main\<close> is in its loop, key material, address and timers never change
  again, whatever is configured over the air.\<close>

theorem node_invariant:
  assumes "settings_atomic (p_settings E) persisted" and "stored_ok (persisted (nvs (n_config nd0)))"
    and "power_up nd0" and "(node_step E)\<^sup>*\<^sup>* (after_sys_init E nd0) nd"
  shows "config_in_range (ts_config_get (n_config nd)) \<and> table_ok (n_table nd) \<and> pool_ok (n_pool nd) \<and>
    seen_shape (n_routing nd) \<and> started nd \<and>
    (\<forall>nd'. main_running nd \<and> (node_step E)\<^sup>*\<^sup>* nd nd' \<longrightarrow> same_identity nd nd')"
  using node_run_inv [OF assms(1,3,2,4)] running_run [of E nd] by (auto simp: node_ok_def config_ok_def)

theorem node_invariant_witness:
  "(node_step ref_platform)\<^sup>*\<^sup>* (after_sys_init ref_platform (ref_power_up [])) (heartbeat ref_platform 7 ref_node) \<and>
   pool_ok (n_pool (heartbeat ref_platform 7 ref_node)) \<and> started (heartbeat ref_platform 7 ref_node)"
proof -
  have "node_step ref_platform ref_node (heartbeat ref_platform 7 ref_node)"
    by (rule node_step.task [OF task_step.beat]) simp
  with boot_run [of ref_platform "ref_power_up []"] ref_started
  have run: "(node_step ref_platform)\<^sup>*\<^sup>* (after_sys_init ref_platform (ref_power_up [])) (heartbeat ref_platform 7 ref_node)"
    unfolding ref_booted_def by (meson rtranclp_trans rtranclp.rtrancl_into_rtrancl)
  with node_invariant [OF _ _ ref_power_up_ok run, of map_of] ref_settings.settings_atomic_axioms show ?thesis
    by (simp add: ref_power_up_def stored_ok_def ref_settings.settings_atomic_axioms)
qed

text \<open>(C10) When the radio cannot be configured at start-up, the failure is contained: the semaphore is
  never given, so neither radio task ever enters its loop and the device is never touched
  again, whatever the rest of the node does.\<close>

theorem radio_failure_contained:
  assumes "fst (lora_init E nd0) \<noteq> 0" and "power_up nd0" and "(node_step E)\<^sup>*\<^sup>* (after_sys_init E nd0) nd"
  shows "\<not> lora_out_running nd \<and> \<not> lora_in_running nd \<and> n_radio nd = n_radio (after_sys_init E nd0)"
proof -
  have r: "radio_off (after_sys_init E nd0)"
    using assms(1,2)
    by (auto simp: after_sys_init_def lora_init_def radio_off_def power_up_def Let_def split: prod.splits if_splits)
  from assms(3) have "radio_off nd \<and> n_radio nd = n_radio (after_sys_init E nd0)"
  proof (induction rule: rtranclp_induct)
    case base
    from r show ?case by simp
  next
    case (step y z)
    with radio_off_step [OF step.hyps(2)] show ?case by simp
  qed
  then show ?thesis by (simp add: radio_off_def)
qed

text \<open>A board whose radio is not ready.\<close>

definition dead_radio :: "(bytes \<times> nat, bytes \<times> nat, ref_keys, ref_nvs, uint32_t option, ref_bus,
    (nat \<times> lora_mock_packet list) lora_mock_data, uint32_t) platform" where
  "dead_radio = ref_platform\<lparr>p_lora := (p_lora ref_platform)\<lparr>lora_ready := \<lambda>_. False\<rparr>\<rparr>"

theorem radio_failure_contained_witness:
  "let nd = boot dead_radio (ref_power_up []) in
     main_running nd \<and> \<not> lora_out_running nd \<and> n_radio nd = n_radio (ref_power_up [])"
proof -
  let ?p = "ref_power_up []"
  have "n_config ?p = fresh_config" "n_auth ?p = blank_auth" "main_pc ?p = Main_Auth"
    by (simp_all add: ref_power_up_def fresh_config_def)
  then have m: "main_running (boot dead_radio ?p)"
    using boot_loop [of ?p dead_radio ref_auth fresh_config]
    by (simp add: dead_radio_def ref_auth_init ref_init_fresh)
  have "lora_init dead_radio ?p = (-ENODEV, ?p)" by (simp add: lora_init_def dead_radio_def)
  with radio_failure_contained [OF _ ref_power_up_ok boot_run, of dead_radio "[]"] m show ?thesis
    by (simp add: after_sys_init_def Let_def)
qed

text \<open>(C9) A node whose key string is malformed (of the wrong length, or with a character that is not a
  hexadecimal digit) stays mute and deaf. \<open>main\<close> gets no further than \<open>ts_auth_init\<close> and returns
  the error, so there are no heartbeats, sensor readings or ageing runs; the radio tasks do
  start, but as long as the crypto backend computes no MAC under the key id that was never
  assigned, nothing is ever sent (the device is only asked to receive) and no packet changes
  the configuration, the duplicate filter, the neighbour table or the forwarding pool.\<close>

theorem keyless_node_inert:
  assumes "length (p_network_key E) \<noteq> 2 * TS_AUTH_KEY_SIZE \<or> (\<exists>c \<in> set (p_network_key E). hex_digit c = None)"
    and "power_up nd0"
    and "\<And>d. fst (psa_mac_compute (p_psa E) (psa_store (n_auth nd0)) (auth_key_id (n_auth nd0)) PSA_ALG_CMAC d) \<noteq> PSA_SUCCESS"
    and "(node_step E)\<^sup>*\<^sup>* (after_sys_init E nd0) nd"
  shows "main_pc nd \<in> {Main_Auth, Main_Returned (-EINVAL)} \<and>
    (recv_only (p_lora E))\<^sup>*\<^sup>* (n_radio (after_sys_init E nd0)) (n_radio nd) \<and>
    n_config nd = n_config nd0 \<and> n_routing nd = n_routing nd0 \<and> n_table nd = n_table nd0 \<and>
    pending (n_pool nd) = {#}"
proof -
  let ?l = "after_sys_init E nd0"
  have l: "n_config ?l = n_config nd0" "n_routing ?l = n_routing nd0" "n_table ?l = n_table nd0" "keyless E ?l"
    using assms(2,3) by (simp_all add: after_sys_init_def lora_init_def keyless_def power_up_def Let_def split: prod.split)
  from assms(4) have "keyless E nd \<and> (recv_only (p_lora E))\<^sup>*\<^sup>* (n_radio ?l) (n_radio nd) \<and>
    n_config nd = n_config ?l \<and> n_routing nd = n_routing ?l \<and> n_table nd = n_table ?l"
  proof (induction rule: rtranclp_induct)
    case base
    from l show ?case by simp
  next
    case (step y z)
    with keyless_step [OF step.hyps(2) _ assms(1)] show ?case by (auto intro: rtranclp_trans)
  qed
  then show ?thesis using l unoccupied_pending [of "n_pool nd"] by (simp add: keyless_def)
qed

text \<open>A board built with a bad key string.\<close>

definition bad_key :: "(bytes \<times> nat, bytes \<times> nat, ref_keys, ref_nvs, uint32_t option, ref_bus,
    (nat \<times> lora_mock_packet list) lora_mock_data, uint32_t) platform" where
  "bad_key = ref_platform\<lparr>p_network_key := ''00112233445566778899aabbccddeexy''\<rparr>"

theorem keyless_node_inert_witness:
  "main_pc (boot bad_key (ref_power_up [])) \<in> {Main_Auth, Main_Returned (-EINVAL)} \<and>
   lora_ready_sem (after_sys_init bad_key (ref_power_up [])) \<and>
   pending (n_pool (boot bad_key (ref_power_up []))) = {#}"
proof -
  have hex: "hex_digit (CHR ''x'') = None" by code_simp
  have "lora_ready_sem (after_sys_init bad_key (ref_power_up []))"
    by (simp add: after_sys_init_def lora_init_def bad_key_def ref_power_up_def lora_mock_api_def lora_mock_config_def)
  with keyless_node_inert [OF _ ref_power_up_ok _ boot_run, of bad_key "[]"] hex show ?thesis
    by (simp add: bad_key_def ref_power_up_def ref_psa_def blank_auth_def)
qed

text \<open>(C35) The radio tasks are more urgent than \<open>main\<close>, so packets are handled as soon as the key is
  loaded, before \<open>main\<close> has called \<open>ts_routing_init\<close>. Until then the node answers to address 0,
  and what it has accepted is forgotten: a broadcast that arrives before the call and again
  after it is delivered twice and queued for forwarding twice.\<close>

theorem startup_accepts_twice:
  assumes "zbus (p_zbus E) current notified delivered" and "settings_atomic (p_settings E) persisted"
    and "stored_ok (persisted (nvs (n_config nd0)))" and "power_up nd0"
    and "(node_step E)\<^sup>*\<^sup>* (after_sys_init E nd0) nd" and "main_pc nd = Main_Routing"
    and "\<And>z. fst (zbus_chan_pub_in (p_zbus E) im z) = 0"
    and "fresh_for E (msg_route (in_msg im)) nd" and "wf_data (msg_data (in_msg im))"
    and "msg_type (msg_data (in_msg im)) \<notin> {TS_MSG_CONFIG_SET, TS_MSG_CONFIG_ACK}"
    and "rh_dst (msg_route (in_msg im)) = TS_ROUTING_BROADCAST_ADDR"
    and "rh_src (msg_route (in_msg im)) \<noteq> node_id (ts_config_get (n_config nd))"
    and "2 \<le> rh_ttl (msg_route (in_msg im))" and "Suc (size (pending (n_pool nd))) < TS_CONTENTION_POOL_SIZE"
  shows "let h = msg_route (in_msg im); m = (in_msg im)\<lparr>msg_route := h\<lparr>rh_ttl := rh_ttl h - 1\<rparr>\<rparr>;
      nd' = lora_in_message E now' im (main_step E (lora_in_message E now im nd)) in
    self_node_id (n_routing nd) = 0 \<and>
    delivered (n_bus nd') = delivered (n_bus nd) @ [im, im] \<and>
    pending (n_pool nd') = pending (n_pool nd) + {#m, m#}"
proof -
  let ?a = "lora_in_message E now im nd"
  let ?b = "main_step E ?a"
  have inv: "node_ok nd" "started nd" using node_run_inv [OF assms(2,4,3,5)] by simp_all
  have size: "size (pending (n_pool nd)) < TS_CONTENTION_POOL_SIZE" using assms(14) by simp
  note 1 = fresh_broadcast [OF assms(1,7,8-11) inv(1) assms(13) size, of now]
  have pc: "main_pc ?a = Main_Routing" "node_ok ?a"
    using in_message_ok [OF inv(1), of E now im] assms(6) by (simp_all add: same_identity_def)
  have b: "?b = ?a\<lparr>n_routing := ts_routing_init (node_id (ts_config_get (n_config nd))), main_pc := Main_Table\<rparr>"
    using pc(1) 1(3) by (simp add: main_step_def)
  have ok: "node_ok ?b"
    using pc(2) by (simp add: b node_ok_def seen_shape_def ts_routing_init_def TS_ROUTING_SEEN_CACHE_SIZE_def)
  have f: "fresh_for E (msg_route (in_msg im)) ?b"
    using assms(8,12) by (simp add: b fresh_for_def ref_not_seen) (simp add: ts_routing_init_def)
  have "size (pending (n_pool ?b)) < TS_CONTENTION_POOL_SIZE" using 1(2) assms(14) by simp
  from fresh_broadcast [OF assms(1,7) f assms(9-11) ok assms(13) this, of now'] 1 inv(2) assms(6) show ?thesis
    by (simp add: Let_def started_def)
qed

text \<open>The reference node with its receive task running, before it knows its address.\<close>

definition ref_early :: "(ref_keys, ref_nvs, uint32_t option, ref_bus,
    (nat \<times> lora_mock_packet list) lora_mock_data, uint32_t) node" where
  "ref_early = (main_step ref_platform ^^ 2)
     (the (lora_in_start ref_platform (after_sys_init ref_platform (ref_power_up []))))"

theorem startup_accepts_twice_witness:
  "(node_step ref_platform)\<^sup>*\<^sup>* (after_sys_init ref_platform (ref_power_up [])) ref_early \<and>
   snd (snd (n_bus (lora_in_message ref_platform 2 ref_heard (main_step ref_platform
     (lora_in_message ref_platform 1 ref_heard ref_early))))) = [ref_heard, ref_heard]"
proof -
  let ?i = "after_sys_init ref_platform (ref_power_up [])"
  have i: "lora_ready_sem ?i" "\<not> lora_in_running ?i" "main_pc ?i = Main_Auth" "n_auth ?i = blank_auth"
    "n_config ?i = fresh_config" "n_routing ?i = ts_routing_init 0" "n_bus ?i = (zero_msg, 0, [])" "n_pool ?i = blank_pool"
    by (simp_all add: after_sys_init_def lora_init_def ref_power_up_def lora_mock_api_def lora_mock_config_def fresh_config_def)
  let ?s = "?i\<lparr>lora_ready_sem := True, n_pool := ts_contention_init ref_k_work blank_pool, lora_in_running := True\<rparr>"
  have s: "lora_in_start ref_platform ?i = Some ?s" using i by (simp add: start_defined)
  then have "node_step ref_platform ?i ?s" by (intro node_step.task task_step.in_start i)
  then have run: "(node_step ref_platform)\<^sup>*\<^sup>* ?i ref_early"
    using s main_steps_rtranclp [of ref_platform ?s 2]
    by (simp add: ref_early_def del: funpow.simps)
  have e: "ref_early = ?s\<lparr>n_auth := ref_auth, n_config := fresh_config, main_pc := Main_Routing\<rparr>"
    using s i by (simp add: ref_early_def eval_nat_numeral main_step_def ref_auth_init ref_init_fresh)
  have f: "fresh_for ref_platform (msg_route ref_reading) ref_early"
    using i by (simp add: e fresh_for_def ref_not_seen) (simp add: ref_reading_def ts_auth_get_key_id_def ts_routing_init_def)
  have "ts_config_get fresh_config = TS_CONFIG_DEFAULTS" by (simp add: ts_config_get_def)
  with startup_accepts_twice [OF ref_zbus.zbus_axioms [folded ref_platform_simps]
      ref_settings.settings_atomic_axioms [folded ref_platform_simps] _ ref_power_up_ok run, of ref_heard 2 1]
    run f ref_reading_wf init_pool_ok [OF blank_pool_length, of ref_k_work] i
  show ?thesis
    by (simp add: e ref_zbus_works Let_def TS_CONTENTION_POOL_SIZE_def TS_CONFIG_DEFAULTS_def ref_power_up_def stored_ok_def)
qed

text \<open>(C34) The outgoing channel holds one message, and the transmit task is only notified of
  publications: when two messages are published before it runs, it sends the second one
  twice and the first one never.\<close>

theorem outgoing_message_overwritten:
  assumes "zbus (p_zbus E) current notified delivered"
    and "zbus_chan_pub_out (p_zbus E) m1 (n_bus nd) = (0, z1)" and "zbus_chan_pub_out (p_zbus E) m2 z1 = (0, z2)"
    and "zbus_sub_wait (p_zbus E) z2 = (0, c, z3)" and "zbus_chan_read_out (p_zbus E) z3 = (0, x, z4)"
    and "zbus_sub_wait (p_zbus E) z4 = (0, c', z5)" and "zbus_chan_read_out (p_zbus E) z5 = (0, x', z6)"
    and "lora_out_packet E (n_auth nd) m2 = Inr pkt"
  shows "lora_out_iteration E (lora_out_iteration E (nd\<lparr>n_bus := z2\<rparr>)) =
    nd\<lparr>n_bus := z6, n_radio := snd (lora_send (p_lora E) pkt (length pkt)
        (snd (lora_send (p_lora E) pkt (length pkt) (n_radio nd))))\<rparr>"
proof -
  note z = assms(1)
  have "current z2 = m2" using zbus.pub_out [OF z assms(3)] by simp
  then have "x = m2" "current z4 = m2" "c = ts_lora_out_chan"
    using zbus.sub_wait [OF z assms(4)] zbus.read_out [OF z assms(5)] by simp_all
  moreover from this have "x' = m2" "c' = ts_lora_out_chan"
    using zbus.sub_wait [OF z assms(6)] zbus.read_out [OF z assms(7)] by simp_all
  ultimately show ?thesis using assms(4-8) by (simp add: lora_out_iteration_def)
qed

theorem outgoing_message_overwritten_witness:
  "\<exists>pkt. lora_out_packet ref_platform ref_auth ref_reading = Inr pkt \<and>
     n_radio (lora_out_iteration ref_platform (lora_out_iteration ref_platform
        (ref_node\<lparr>n_bus := (ref_reading, 2, [])\<rparr>))) =
       snd (lora_mock_send ref_k_msgq pkt (length pkt)
         (snd (lora_mock_send ref_k_msgq pkt (length pkt) (n_radio ref_node))))"
proof -
  obtain pkt where pkt: "lora_out_packet ref_platform ref_auth ref_reading = Inr pkt"
    using ref_packet [OF ref_reading_wf(1,2)] by blast
  with outgoing_message_overwritten [of ref_platform fst "\<lambda>z. fst (snd z)" "\<lambda>z. snd (snd z)" zero_msg ref_node
      "(zero_msg, 1, [])" ref_reading "(ref_reading, 2, [])" ts_lora_out_chan "(ref_reading, 1, [])" ref_reading
      "(ref_reading, 1, [])" ts_lora_out_chan "(ref_reading, 0, [])" ref_reading "(ref_reading, 0, [])" pkt]
    ref_zbus.zbus_axioms
  show ?thesis by (intro exI [of _ pkt]) (simp add: ref_zbus_def lora_mock_api_def)
qed

text \<open>(C36) The radio is configured before the stored settings are loaded, and never again: whatever
  is stored and whatever is configured later, it was configured with the default radio
  parameters, and all that happens to it afterwards is sending and receiving.\<close>

theorem radio_keeps_default_settings:
  assumes "power_up nd0" and "lora_ready (p_lora E) (n_radio nd0)"
    and "(node_step E)\<^sup>*\<^sup>* (after_sys_init E nd0) nd"
  shows "(radio_use (p_lora E))\<^sup>*\<^sup>*
    (snd (lora_config (p_lora E) (lora_populate_modem_config TS_CONFIG_DEFAULTS) (n_radio nd0))) (n_radio nd)"
proof -
  have "n_radio (after_sys_init E nd0) =
      snd (lora_config (p_lora E) (lora_populate_modem_config TS_CONFIG_DEFAULTS) (n_radio nd0))"
    using assms(1,2) by (simp add: after_sys_init_def lora_init_def power_up_def ts_config_get_def Let_def split: prod.split)
  moreover from assms(3) have "(radio_use (p_lora E))\<^sup>*\<^sup>* (n_radio (after_sys_init E nd0)) (n_radio nd)"
  proof (induction rule: rtranclp_induct)
    case (step y z)
    with node_step_radio [OF step.hyps(2)] show ?case by (auto intro: rtranclp_trans)
  qed simp
  ultimately show ?thesis by simp
qed

definition stored_sf :: ref_nvs where
  "stored_sf = [(''ts/lora_sf'', [7])]"

lemma stored_sf_loaded: "lora_sf (ts_config_get (snd (ts_config_init ref_settings
   \<lparr>live_config = config_image TS_CONFIG_DEFAULTS, nvs = stored_sf\<rparr>))) = 7"
  unfolding stored_sf_def TS_CONFIG_DEFAULTS_def ref_settings_def by code_simp

lemma ref_boot_config:
  "n_config (boot ref_platform (ref_power_up stored)) =
    snd (ts_config_init ref_settings \<lparr>live_config = config_image TS_CONFIG_DEFAULTS, nvs = stored\<rparr>)"
proof -
  obtain c where "ts_config_init ref_settings \<lparr>live_config = config_image TS_CONFIG_DEFAULTS, nvs = stored\<rparr> = (0, c)"
    using ref_init_succeeds by blast
  with boot_loop [of "ref_power_up stored" ref_platform ref_auth c] ref_auth_init show ?thesis
    by (simp add: ref_power_up_def)
qed

lemma mock_use_config: "(radio_use (lora_mock_api Q))\<^sup>*\<^sup>* l l' \<Longrightarrow> mock_config l' = mock_config l"
proof (induction rule: rtranclp_induct)
  case (step y z)
  have "mock_config (snd (lora_mock_recv Q n y)) = mock_config y" for n
    by (simp add: lora_mock_recv_def Let_def split: prod.split option.split)
  moreover have "mock_config (snd (lora_mock_send Q pkt n y)) = mock_config y" for pkt n
    by (simp add: lora_mock_send_def Let_def split: prod.split)
  ultimately show ?case using step by (auto simp: radio_use_def lora_mock_api_def)
qed simp

theorem radio_keeps_default_settings_witness:
  "let nd = boot ref_platform (ref_power_up stored_sf) in
     lora_sf (ts_config_get (n_config nd)) = 7 \<and> mc_datarate (mock_config (n_radio nd)) = 10"
proof -
  let ?nd = "boot ref_platform (ref_power_up stored_sf)"
  have "(radio_use (lora_mock_api ref_k_msgq))\<^sup>*\<^sup>* (snd (lora_mock_config (lora_populate_modem_config TS_CONFIG_DEFAULTS)
      (n_radio (ref_power_up stored_sf)))) (n_radio ?nd)"
    using radio_keeps_default_settings [OF ref_power_up_ok _ boot_run, of ref_platform stored_sf]
    by (simp add: lora_mock_api_def)
  from mock_use_config [OF this] have "mock_config (n_radio ?nd) = lora_populate_modem_config TS_CONFIG_DEFAULTS"
    by (simp add: lora_mock_config_def)
  moreover have "lora_sf (ts_config_get (n_config ?nd)) = 7"
    unfolding ref_boot_config by (rule stored_sf_loaded)
  ultimately show ?thesis
    by (simp add: lora_populate_modem_config_def TS_CONFIG_DEFAULTS_def)
qed

text \<open>(C37) Message ids restart with every boot. Take two runs of a node with the same address, and in
  each the message whose header is prepared after \<open>k\<close> heartbeats. A node that has accepted the
  one of the first run, and has handled fewer than 32 messages since, takes the one of the
  second run for a copy, whatever it says: it is not delivered, not applied, not forwarded and
  does not refresh the neighbour entry.\<close>

theorem restarted_node_ignored:
  assumes "power_up p" and "main_running (boot E p)" and "power_up p'" and "main_running (boot E p')"
    and "a = boot E p" and "a' = boot E p'"
    and "node_id (ts_config_get (n_config a')) = node_id (ts_config_get (n_config a))"
    and "length ts' = length ts"
    and "(hdr, rs) = ts_routing_prepare_header cfg h dst (n_routing (heartbeats E ts a))"
    and "(hdr', rs') = ts_routing_prepare_header cfg' h' dst' (n_routing (heartbeats E ts' a'))"
    and "n_routing b0 = ts_routing_init nid" and "node_ok b0"
    and "length before + length between < 2 ^ 32 - 1" and "length between < 32"
    and "hdr_key (msg_route (in_msg im)) = hdr_key hdr" and "hdr_key (msg_route (in_msg im')) = hdr_key hdr'"
    and "fresh_for F (msg_route (in_msg im)) (handle_all F before b0)"
    and "rh_key_id (msg_route (in_msg im')) = ts_auth_get_key_id (p_key_id F)"
    and "b = handle_all F (before @ (now, im) # between) b0"
  shows "\<exists>pl. lora_in_message F now' im' b = b\<lparr>n_pool := pl\<rparr>"
proof -
  have "hdr_key hdr = hdr_key hdr'"
    using assms(5-10) boot_routing [of p E] boot_routing [of p' E] assms(1-4)
    by (simp add: power_up_def ts_routing_prepare_header_def hdr_key_def heartbeats_routing ts_routing_init_def)
  then have "msg_key (in_msg im') = msg_key (in_msg im)"
    using assms(15,16) by (simp add: msg_key_def hdr_key_def)
  from copy_only_cancels [OF assms(11-14,17,19) this assms(18)] show ?thesis by blast
qed

text \<open>The reference node starts twice; node 2 hears the first message of either run.\<close>

definition first_heard :: ts_msg_lora_incoming where
  "first_heard = \<lparr>in_msg = zero_msg\<lparr>msg_route := zero_header\<lparr>rh_src := 1, rh_dst := 0xFFFF, rh_ttl := 5, rh_key_id := 1\<rparr>\<rparr>,
     in_rssi = -42, in_snr = 10\<rparr>"

theorem restarted_node_ignored_witness:
  "let b = lora_in_message ref_platform 60 first_heard (ref_node\<lparr>n_routing := ts_routing_init 2\<rparr>) in
     \<exists>pl. lora_in_message ref_platform 500 first_heard b = b\<lparr>n_pool := pl\<rparr>"
proof -
  let ?b = "ref_node\<lparr>n_routing := ts_routing_init 2\<rparr>"
  obtain hdr rs where h: "(hdr, rs) = ts_routing_prepare_header TS_CONFIG_DEFAULTS zero_header TS_ROUTING_BROADCAST_ADDR
      (n_routing (heartbeats ref_platform [] ref_booted))" by (metis surj_pair)
  then have k: "hdr_key (msg_route (in_msg first_heard)) = hdr_key hdr"
    by (simp add: heartbeats_def ref_booted_simps ts_routing_prepare_header_def ts_routing_init_def hdr_key_def
        first_heard_def zero_header_def)
  have f: "fresh_for ref_platform (msg_route (in_msg first_heard)) ?b"
    by (simp add: fresh_for_def ref_not_seen) (simp add: first_heard_def ts_auth_get_key_id_def ts_routing_init_def)
  have m: "main_running (boot ref_platform (ref_power_up []))" using ref_booted_simps by (simp add: ref_booted_def)
  have "node_ok ?b"
    using ref_node_ok(1) by (simp add: node_ok_def seen_shape_def ts_routing_init_def)
  with restarted_node_ignored [OF ref_power_up_ok m ref_power_up_ok m ref_booted_def ref_booted_def refl refl h h, of ?b 2 "[]" "[]" first_heard first_heard ref_platform
      "lora_in_message ref_platform 60 first_heard ?b" 60 500] k f
  show ?thesis by (simp add: handle_all_def) (simp add: first_heard_def ts_auth_get_key_id_def)
qed

end
